theory Spec2Isabelle
  imports Complex_Main
begin

section \<open>Repair of the verse database (scripts/repair\_bible\_database.py)\<close>

text \<open>
  The script scans a SQLite store of verses, decides per book whether enough verses are
  present, downloads the chapters of every book that is not complete enough and inserts
  the verses that are missing. The store and the content provider are outside the script:
  the store is a record of its two tables, the provider a function from the address of a
  chapter to the response it gives, and everything the script does to the outside world
  (requests, store calls with their outcome, delays, printed lines) is appended to a trace.
  What the provider sends is decoded JSON of any shape, and the script handles it with
  Python's own operations, which are written out below with the exceptions they raise.
\<close>

subsection \<open>Static tables\<close>

text \<open>Python dictionaries in source order; \<open>d.get(k)\<close> is \<open>map_of d k\<close>.\<close>

definition TRANSLATIONS :: "(string \<times> string) list" where
  "TRANSLATIONS =
  [(''KJV'', ''en-kjv''), (''ASV'', ''en-asv''), (''WEB'', ''en-web'')]"

definition BOOK_NAMES :: "(string \<times> string) list" where
  "BOOK_NAMES =
  [(''Genesis'', ''genesis''), (''Exodus'', ''exodus''), (''Leviticus'', ''leviticus''),
    (''Numbers'', ''numbers''), (''Deuteronomy'', ''deuteronomy''),
    (''Joshua'', ''joshua''), (''Judges'', ''judges''), (''Ruth'', ''ruth''),
    (''1 Samuel'', ''1-samuel''), (''2 Samuel'', ''2-samuel''), (''1 Kings'', ''1-kings''),
    (''2 Kings'', ''2-kings''), (''1 Chronicles'', ''1-chronicles''),
    (''2 Chronicles'', ''2-chronicles''), (''Ezra'', ''ezra''),
    (''Nehemiah'', ''nehemiah''), (''Esther'', ''esther''), (''Job'', ''job''),
    (''Psalms'', ''psalms''), (''Proverbs'', ''proverbs''),
    (''Ecclesiastes'', ''ecclesiastes''), (''Song of Solomon'', ''song-of-solomon''),
    (''Isaiah'', ''isaiah''), (''Jeremiah'', ''jeremiah''),
    (''Lamentations'', ''lamentations''), (''Ezekiel'', ''ezekiel''),
    (''Daniel'', ''daniel''), (''Hosea'', ''hosea''), (''Joel'', ''joel''),
    (''Amos'', ''amos''), (''Obadiah'', ''obadiah''), (''Jonah'', ''jonah''),
    (''Micah'', ''micah''), (''Nahum'', ''nahum''), (''Habakkuk'', ''habakkuk''),
    (''Zephaniah'', ''zephaniah''), (''Haggai'', ''haggai''),
    (''Zechariah'', ''zechariah''), (''Malachi'', ''malachi''), (''Matthew'', ''matthew''),
    (''Mark'', ''mark''), (''Luke'', ''luke''), (''John'', ''john''), (''Acts'', ''acts''),
    (''Romans'', ''romans''), (''1 Corinthians'', ''1-corinthians''),
    (''2 Corinthians'', ''2-corinthians''), (''Galatians'', ''galatians''),
    (''Ephesians'', ''ephesians''), (''Philippians'', ''philippians''),
    (''Colossians'', ''colossians''), (''1 Thessalonians'', ''1-thessalonians''),
    (''2 Thessalonians'', ''2-thessalonians''), (''1 Timothy'', ''1-timothy''),
    (''2 Timothy'', ''2-timothy''), (''Titus'', ''titus''), (''Philemon'', ''philemon''),
    (''Hebrews'', ''hebrews''), (''James'', ''james''), (''1 Peter'', ''1-peter''),
    (''2 Peter'', ''2-peter''), (''1 John'', ''1-john''), (''2 John'', ''2-john''),
    (''3 John'', ''3-john''), (''Jude'', ''jude''), (''Revelation'', ''revelation'')]"

definition VERSE_COUNTS :: "(string \<times> int) list" where
  "VERSE_COUNTS =
  [(''Genesis'', 1533), (''Exodus'', 1213), (''Leviticus'', 859), (''Numbers'', 1288),
    (''Deuteronomy'', 959), (''Joshua'', 658), (''Judges'', 618), (''Ruth'', 85),
    (''1 Samuel'', 810), (''2 Samuel'', 695), (''1 Kings'', 816), (''2 Kings'', 719),
    (''1 Chronicles'', 942), (''2 Chronicles'', 822), (''Ezra'', 280), (''Nehemiah'', 406),
    (''Esther'', 167), (''Job'', 1070), (''Psalms'', 2461), (''Proverbs'', 915),
    (''Ecclesiastes'', 222), (''Song of Solomon'', 117), (''Isaiah'', 1292),
    (''Jeremiah'', 1364), (''Lamentations'', 154), (''Ezekiel'', 1273), (''Daniel'', 357),
    (''Hosea'', 197), (''Joel'', 73), (''Amos'', 146), (''Obadiah'', 21), (''Jonah'', 48),
    (''Micah'', 105), (''Nahum'', 47), (''Habakkuk'', 56), (''Zephaniah'', 53),
    (''Haggai'', 38), (''Zechariah'', 211), (''Malachi'', 55), (''Matthew'', 1071),
    (''Mark'', 678), (''Luke'', 1151), (''John'', 879), (''Acts'', 1007),
    (''Romans'', 433), (''1 Corinthians'', 437), (''2 Corinthians'', 257),
    (''Galatians'', 149), (''Ephesians'', 155), (''Philippians'', 104),
    (''Colossians'', 95), (''1 Thessalonians'', 89), (''2 Thessalonians'', 47),
    (''1 Timothy'', 113), (''2 Timothy'', 83), (''Titus'', 46), (''Philemon'', 25),
    (''Hebrews'', 303), (''James'', 108), (''1 Peter'', 105), (''2 Peter'', 61),
    (''1 John'', 105), (''2 John'', 13), (''3 John'', 14), (''Jude'', 25),
    (''Revelation'', 404)]"

definition CHAPTERS :: "(string \<times> int) list" where
  "CHAPTERS =
  [(''Genesis'', 50), (''Exodus'', 40), (''Leviticus'', 27), (''Numbers'', 36),
    (''Deuteronomy'', 34), (''Joshua'', 24), (''Judges'', 21), (''Ruth'', 4),
    (''1 Samuel'', 31), (''2 Samuel'', 24), (''1 Kings'', 22), (''2 Kings'', 25),
    (''1 Chronicles'', 29), (''2 Chronicles'', 36), (''Ezra'', 10), (''Nehemiah'', 13),
    (''Esther'', 10), (''Job'', 42), (''Psalms'', 150), (''Proverbs'', 31),
    (''Ecclesiastes'', 12), (''Song of Solomon'', 8), (''Isaiah'', 66), (''Jeremiah'', 52),
    (''Lamentations'', 5), (''Ezekiel'', 48), (''Daniel'', 12), (''Hosea'', 14),
    (''Joel'', 3), (''Amos'', 9), (''Obadiah'', 1), (''Jonah'', 4), (''Micah'', 7),
    (''Nahum'', 3), (''Habakkuk'', 3), (''Zephaniah'', 3), (''Haggai'', 2),
    (''Zechariah'', 14), (''Malachi'', 4), (''Matthew'', 28), (''Mark'', 16),
    (''Luke'', 24), (''John'', 21), (''Acts'', 28), (''Romans'', 16),
    (''1 Corinthians'', 16), (''2 Corinthians'', 13), (''Galatians'', 6),
    (''Ephesians'', 6), (''Philippians'', 4), (''Colossians'', 4),
    (''1 Thessalonians'', 5), (''2 Thessalonians'', 3), (''1 Timothy'', 6),
    (''2 Timothy'', 4), (''Titus'', 3), (''Philemon'', 1), (''Hebrews'', 13),
    (''James'', 5), (''1 Peter'', 5), (''2 Peter'', 3), (''1 John'', 5), (''2 John'', 1),
    (''3 John'', 1), (''Jude'', 1), (''Revelation'', 22)]"

subsection \<open>Decoded JSON and the Python operations on it\<close>

text \<open>
  What \<open>json.loads\<close> returns for a JSON text: \<open>None\<close>, a bool, an int of any
  size, a float (given by the number it stands for), a str, a list or a dict. A dict is the
  list of its items in order, each key once, looked up with \<open>map_of\<close>. The literals
  \<open>NaN\<close> and \<open>Infinity\<close>, which are not JSON but which \<open>json.loads\<close> lets
  pass, are left out.
\<close>

datatype json =
    JNull
  | JBool bool
  | JInt int
  | JFloat real
  | JStr string
  | JArray "json list"
  | JObject "(string \<times> json) list"

text \<open>
  The two exceptions of \<open>sqlite3\<close> the script tells apart. An operational error
  carries its message, which the script searches for the word \<open>locked\<close>.
\<close>

datatype db_error = IntegrityError | OperationalError string

text \<open>
  Every exception a run can end with: one of the store's, or one that Python or the
  binding of a statement's parameters raises and that no \<open>except\<close> clause of the
  script names (\<open>BindingError\<close> is \<open>sqlite3\<close>'s error for a parameter of a type it
  does not support).
\<close>

datatype error =
    StoreError db_error
  | AttributeError
  | TypeError
  | OverflowError
  | BindingError

text \<open>\<open>not x\<close>: true for \<open>None\<close>, \<open>False\<close>, zero and everything empty.\<close>

fun py_not :: "json \<Rightarrow> bool" where
  "py_not JNull = True"
| "py_not (JBool b) = (b = False)"
| "py_not (JInt n) = (n = 0)"
| "py_not (JFloat x) = (x = 0)"
| "py_not (JStr s) = (s = [])"
| "py_not (JArray xs) = (xs = [])"
| "py_not (JObject kvs) = (kvs = [])"

text \<open>\<open>d.get(key, default)\<close>: only a dict has the method.\<close>

fun dict_get :: "json \<Rightarrow> string \<Rightarrow> json \<Rightarrow> error + json" where
  "dict_get (JObject kvs) key default_value =
     Inr (case map_of kvs key of Some x \<Rightarrow> x | None \<Rightarrow> default_value)"
| "dict_get _ key default_value = Inl AttributeError"

text \<open>
  \<open>for v in x\<close>: the elements of a list, the keys of a dict, the characters of a str;
  nothing else that JSON decodes to can be iterated.
\<close>

fun iterate :: "json \<Rightarrow> error + json list" where
  "iterate (JArray xs) = Inr xs"
| "iterate (JObject kvs) = Inr (map (\<lambda>kv. JStr (fst kv)) kvs)"
| "iterate (JStr s) = Inr (map (\<lambda>ch. JStr [ch]) s)"
| "iterate _ = Inl TypeError"

text \<open>
  Membership in a set hashes the element: a list or a dict inside it raises
  \<open>TypeError\<close>. Numbers that are equal are the same key, whatever their type
  (\<open>1 == 1.0 == True\<close>); \<open>key_of\<close> gives the integer for them. A str is equal to a str
  only.
\<close>

fun hashable :: "json \<Rightarrow> bool" where
  "hashable (JArray xs) = False"
| "hashable (JObject kvs) = False"
| "hashable _ = True"

fun key_of :: "json \<Rightarrow> json" where
  "key_of (JBool b) = JInt (if b then 1 else 0)"
| "key_of (JFloat x) = (if of_int \<lfloor>x\<rfloor> = x then JInt \<lfloor>x\<rfloor> else JFloat x)"
| "key_of v = v"

subsection \<open>The store\<close>

text \<open>
  A value as \<open>sqlite3\<close> binds it to a parameter of a statement: an integer of 64 bits,
  a real or a text. \<open>bind_param\<close> is the binding of a Python value: a bool goes as
  an integer, an int outside 64 bits raises \<open>OverflowError\<close>, a list or a dict is not
  supported, and \<open>None\<close> goes as \<open>NULL\<close> (the result \<open>None\<close> here).
\<close>

datatype sqlval = SqlInteger int | SqlReal real | SqlText string

fun bind_param :: "json \<Rightarrow> error + sqlval option" where
  "bind_param JNull = Inr None"
| "bind_param (JBool b) = Inr (Some (SqlInteger (if b then 1 else 0)))"
| "bind_param (JInt n) =
     (if - (2 ^ 63) \<le> n \<and> n < 2 ^ 63 then Inr (Some (SqlInteger n)) else Inl OverflowError)"
| "bind_param (JFloat x) = Inr (Some (SqlReal x))"
| "bind_param (JStr s) = Inr (Some (SqlText s))"
| "bind_param (JArray xs) = Inl BindingError"
| "bind_param (JObject kvs) = Inl BindingError"

text \<open>What a \<open>SELECT\<close> hands to Python for a stored value.\<close>

fun fetch_value :: "sqlval \<Rightarrow> json" where
  "fetch_value (SqlInteger n) = JInt n"
| "fetch_value (SqlReal x) = JFloat x"
| "fetch_value (SqlText s) = JStr s"

text \<open>
  A row of table \<open>verses\<close> as both build scripts create it: the columns
  \<open>translation_id, book_id, chapter, verse, text\<close> are \<open>NOT NULL\<close>, the key
  \<open>id\<close> is assigned by the store, and the index on
  \<open>(translation_id, book_id, chapter, verse)\<close> is an ordinary index, not a unique one.
  The table is therefore a list of rows in which a key may occur more than once.

  Every script of the repository binds a string, the id of a book and a chapter counted by
  \<open>range\<close> to the first three columns, and whatever the provider sent to \<open>verse\<close>
  and \<open>text\<close>. A row holds the five values as they were bound. What SQLite makes of a
  value when it stores it in a column depends on the value only, so it is applied where the
  column is read (\<open>get_existing_verses\<close> below); column \<open>text\<close> is never read.
\<close>

record verse_row =
  row_translation_id :: string
  row_book_id :: int
  row_chapter :: int
  row_verse :: sqlval
  row_text :: sqlval

text \<open>
  \<open>bind_row\<close>: the binding of the five parameters of the \<open>INSERT\<close>, in their
  order; the first three always bind. The result \<open>None\<close> stands for a row with a
  \<open>NULL\<close> in it.
\<close>

definition bind_row :: "string \<Rightarrow> int \<Rightarrow> int \<Rightarrow> json \<Rightarrow> json \<Rightarrow> error + verse_row option" where
  "bind_row translation_id book_id chapter verse_num text =
     (case bind_param verse_num of
        Inl e \<Rightarrow> Inl e
      | Inr verse \<Rightarrow>
          (case bind_param text of
             Inl e \<Rightarrow> Inl e
           | Inr txt \<Rightarrow>
               Inr (case verse of
                      None \<Rightarrow> None
                    | Some vv \<Rightarrow>
                        (case txt of
                           None \<Rightarrow> None
                         | Some tv \<Rightarrow>
                             Some \<lparr>row_translation_id = translation_id, row_book_id = book_id,
                                   row_chapter = chapter, row_verse = vv, row_text = tv\<rparr>))))"

text \<open>Lines the script prints, with the values they show.\<close>

datatype message =
    UnknownTranslation string
  | UnknownBook string
  | Complete string nat
  | Progress string nat int
  | CommitRetry
  | Added int
  | Summary string int int

text \<open>
  What the script does to the outside world: a chapter request, a single verse request,
  a delay in milliseconds, an \<open>INSERT\<close> and a \<open>commit\<close> with what the store
  answered (\<open>None\<close> for success), and a printed line.
\<close>

datatype event =
    Fetch string string int
  | FetchVerse string string int int
  | Sleep nat
  | Insert verse_row "db_error option"
  | Commit "db_error option"
  | Print message

text \<open>
  The connection: table \<open>books\<close> as pairs \<open>(id, name)\<close>; table \<open>verses\<close>;
  what the store makes of a value bound to column \<open>verse\<close>, which is declared
  \<open>INTEGER\<close> (SQLite keeps an integer as it is and turns a text that spells a number
  into that number; the rule is the store's, not the script's, and is left open here);
  the answers the store will give to the coming \<open>INSERT\<close> and \<open>commit\<close> calls
  (one per call, \<open>None\<close> for success; a store whose script has run out answers with
  success); and the trace so far.
\<close>

record conn =
  books :: "(int \<times> string) list"
  verses :: "verse_row list"
  verse_affinity :: "sqlval \<Rightarrow> sqlval"
  faults :: "db_error option list"
  trace :: "event list"

definition emit :: "event \<Rightarrow> conn \<Rightarrow> conn" where
  "emit e c = c\<lparr>trace := trace c @ [e]\<rparr>"

definition sleep :: "nat \<Rightarrow> conn \<Rightarrow> conn" where
  "sleep ms c = emit (Sleep ms) c"

definition next_fault :: "conn \<Rightarrow> db_error option \<times> conn" where
  "next_fault c =
     (case faults c of
        [] \<Rightarrow> (None, c)
      | f # fs \<Rightarrow> (f, c\<lparr>faults := fs\<rparr>))"

text \<open>
  \<open>cursor.execute("INSERT INTO verses ...")\<close> with parameters that are bound: unless
  the store raises, the row is appended. The schema has no uniqueness constraint, so a row
  whose key is already in the table is appended like any other.
\<close>

definition execute_insert :: "verse_row \<Rightarrow> conn \<Rightarrow> (db_error + unit) \<times> conn" where
  "execute_insert row c =
     (case next_fault c of
        (None, c') \<Rightarrow> (Inr (), emit (Insert row None) (c'\<lparr>verses := verses c' @ [row]\<rparr>))
      | (Some e, c') \<Rightarrow> (Inl e, emit (Insert row (Some e)) c'))"

text \<open>\<open>conn.commit()\<close>.\<close>

definition commit :: "conn \<Rightarrow> (db_error + unit) \<times> conn" where
  "commit c =
     (case next_fault c of
        (None, c') \<Rightarrow> (Inr (), emit (Commit None) c')
      | (Some e, c') \<Rightarrow> (Inl e, emit (Commit (Some e)) c'))"

text \<open>
  \<open>get_existing_verses\<close>: the Python set of the \<open>(chapter, verse)\<close> tuples of the
  rows of one translation and book, each verse as the store gives it back. The set holds
  one element for values that are equal, so its elements are kept as keys and
  \<open>len(existing)\<close> is its cardinality. The script puts no \<open>try\<close> around its two
  \<open>SELECT\<close> statements; they are taken to succeed, and the answers of the store are
  those to \<open>INSERT\<close> and \<open>commit\<close> only.
\<close>

definition get_existing_verses :: "conn \<Rightarrow> string \<Rightarrow> int \<Rightarrow> (int \<times> json) set" where
  "get_existing_verses c translation_id book_id =
     set (map (\<lambda>r. (row_chapter r, key_of (fetch_value (verse_affinity c (row_verse r)))))
            (filter (\<lambda>r. row_translation_id r = translation_id \<and> row_book_id r = book_id)
               (verses c)))"

subsection \<open>The content provider\<close>

text \<open>
  A request fails, or its body decodes to some JSON value. A failure is any exception inside
  the \<open>try\<close> of the download up to and including \<open>json.loads\<close>.
\<close>

datatype failure = NetworkError | Timeout | DecodeError

datatype response = Failed failure | Body json

text \<open>
  The provider, addressed by translation code, book name and chapter, the three parts of
  the URL that vary.
\<close>

type_synonym cdn = "string \<Rightarrow> string \<Rightarrow> int \<Rightarrow> response"

text \<open>
  \<open>download_chapter\<close>: every exception inside the \<open>try\<close> gives \<open>None\<close>, also
  the one \<open>data.get\<close> raises when the body is not a dict; otherwise the result is
  \<open>data.get('verses', data.get('data', []))\<close>, whatever that value is.
\<close>

definition download_chapter ::
    "cdn \<Rightarrow> string \<Rightarrow> string \<Rightarrow> int \<Rightarrow> conn \<Rightarrow> json option \<times> conn" where
  "download_chapter net translation_code book_api chapter c =
     (let c' = emit (Fetch translation_code book_api chapter) c
      in case net translation_code book_api chapter of
           Failed _ \<Rightarrow> (None, c')
         | Body data \<Rightarrow>
             (case dict_get data ''data'' (JArray []) of
                Inl e \<Rightarrow> (None, c')
              | Inr inner \<Rightarrow>
                  (case dict_get data ''verses'' inner of
                     Inl e \<Rightarrow> (None, c')
                   | Inr result \<Rightarrow> (Some result, c'))))"

text \<open>
  \<open>download_verse\<close>: the request for one verse, with its own provider function;
  \<open>data.get('text', data.get('verse', ''))\<close> or \<open>None\<close>.
\<close>

definition download_verse ::
    "(string \<Rightarrow> string \<Rightarrow> int \<Rightarrow> int \<Rightarrow> response) \<Rightarrow>
     string \<Rightarrow> string \<Rightarrow> int \<Rightarrow> int \<Rightarrow> conn \<Rightarrow> json option \<times> conn" where
  "download_verse net1 translation_code book_api chapter verse c =
     (let c' = emit (FetchVerse translation_code book_api chapter verse) c
      in case net1 translation_code book_api chapter verse of
           Failed _ \<Rightarrow> (None, c')
         | Body data \<Rightarrow>
             (case dict_get data ''verse'' (JStr []) of
                Inl e \<Rightarrow> (None, c')
              | Inr inner \<Rightarrow>
                  (case dict_get data ''text'' inner of
                     Inl e \<Rightarrow> (None, c')
                   | Inr result \<Rightarrow> (Some result, c'))))"

subsection \<open>repair\_translation\<close>

text \<open>\<open>"locked" in str(e)\<close>: the message contains the word.\<close>

fun contains :: "string \<Rightarrow> string \<Rightarrow> bool" where
  "contains [] sub = (sub = [])"
| "contains (x # xs) sub = (take (length sub) (x # xs) = sub \<or> contains xs sub)"

definition locked :: "string \<Rightarrow> bool" where
  "locked msg = contains msg ''locked''"

text \<open>
  The retry loop around the \<open>INSERT\<close> (\<open>for attempt in range(3)\<close>), over the attempts
  still to make, for a row whose parameters are bound. The result says whether the row was
  added.
\<close>

fun insert_attempts :: "nat list \<Rightarrow> verse_row \<Rightarrow> conn \<Rightarrow> (db_error + bool) \<times> conn" where
  "insert_attempts [] row c = (Inr False, c)"
| "insert_attempts (attempt # rest) row c =
     (case execute_insert row c of
        (Inr _, c') \<Rightarrow> (Inr True, c')
      | (Inl IntegrityError, c') \<Rightarrow> (Inr False, c')
      | (Inl (OperationalError msg), c') \<Rightarrow>
          if locked msg \<and> attempt < 2 then insert_attempts rest row (sleep 1000 c')
          else (Inl (OperationalError msg), c'))"

text \<open>
  \<open>v.get('verse', v.get('number', 0))\<close> and \<open>v.get('text', '')\<close>. Python evaluates
  the inner call first; on anything but a dict both raise \<open>AttributeError\<close>. A key
  that is present with the value \<open>null\<close> gives \<open>None\<close>, not the default.
\<close>

definition verse_num_of :: "json \<Rightarrow> error + json" where
  "verse_num_of v =
     (case dict_get v ''number'' (JInt 0) of
        Inl e \<Rightarrow> Inl e
      | Inr inner \<Rightarrow> dict_get v ''verse'' inner)"

definition text_of :: "json \<Rightarrow> error + json" where
  "text_of v = dict_get v ''text'' (JStr [])"

text \<open>
  The loop over the elements of one chapter's list. \<open>book_added\<close> and \<open>total_added\<close>
  are the script's two counters; \<open>existing\<close> is the set read when the book was entered
  and is not updated by the loop.

  The parameters of the \<open>INSERT\<close> are bound when the statement is run for the first
  time, before the store is called: a value that does not bind raises there, through both
  \<open>except\<close> clauses and out of the retry loop, so the binding stands before the loop
  here. A \<open>NULL\<close> would make the statement fail with an integrity error, which the
  loop takes as not added; the test before lets no \<open>None\<close> through, so the case does
  not arise.
\<close>

fun repair_verses ::
    "string \<Rightarrow> int \<Rightarrow> int \<Rightarrow> (int \<times> json) set \<Rightarrow> json list \<Rightarrow> int \<Rightarrow> int \<Rightarrow> conn \<Rightarrow>
     (error + int \<times> int) \<times> conn" where
  "repair_verses translation_id book_id chapter existing [] book_added total_added c =
     (Inr (book_added, total_added), c)"
| "repair_verses translation_id book_id chapter existing (v # vs) book_added total_added c =
     (case verse_num_of v of
        Inl e \<Rightarrow> (Inl e, c)
      | Inr verse_num \<Rightarrow>
          (case text_of v of
             Inl e \<Rightarrow> (Inl e, c)
           | Inr text \<Rightarrow>
               if py_not verse_num \<or> py_not text then
                 repair_verses translation_id book_id chapter existing vs book_added total_added c
               else if hashable verse_num = False then (Inl TypeError, c)
               else if (chapter, key_of verse_num) \<notin> existing then
                 (case bind_row translation_id book_id chapter verse_num text of
                    Inl e \<Rightarrow> (Inl e, c)
                  | Inr None \<Rightarrow>
                      repair_verses translation_id book_id chapter existing vs
                        book_added total_added c
                  | Inr (Some row) \<Rightarrow>
                      (case insert_attempts [0..<3] row c of
                         (Inl e, c') \<Rightarrow> (Inl (StoreError e), c')
                       | (Inr True, c') \<Rightarrow>
                           repair_verses translation_id book_id chapter existing vs
                             (book_added + 1) (total_added + 1) c'
                       | (Inr False, c') \<Rightarrow>
                           repair_verses translation_id book_id chapter existing vs
                             book_added total_added c'))
               else
                 repair_verses translation_id book_id chapter existing vs
                   book_added total_added c))"

text \<open>
  The loop over the chapters of one book (\<open>for chapter in range(1, num_chapters + 1)\<close>),
  over the chapters still to do. A chapter whose download gave \<open>None\<close> or anything
  else that \<open>if chapter_verses\<close> takes for false is passed over; any other value is
  iterated. The delay of a tenth of a second follows every chapter.
\<close>

fun repair_chapters ::
    "cdn \<Rightarrow> string \<Rightarrow> string \<Rightarrow> string \<Rightarrow> int \<Rightarrow> (int \<times> json) set \<Rightarrow> int list \<Rightarrow> int \<Rightarrow> int \<Rightarrow>
     conn \<Rightarrow> (error + int \<times> int) \<times> conn" where
  "repair_chapters net translation_code book_api translation_id book_id existing []
       book_added total_added c =
     (Inr (book_added, total_added), c)"
| "repair_chapters net translation_code book_api translation_id book_id existing (chapter # rest)
       book_added total_added c =
     (case download_chapter net translation_code book_api chapter c of
        (chapter_verses, c1) \<Rightarrow>
          (case (case chapter_verses of
                   None \<Rightarrow> (Inr (book_added, total_added), c1)
                 | Some x \<Rightarrow>
                     if py_not x then (Inr (book_added, total_added), c1)
                     else
                       (case iterate x of
                          Inl e \<Rightarrow> (Inl e, c1)
                        | Inr vs \<Rightarrow>
                            repair_verses translation_id book_id chapter existing vs
                              book_added total_added c1)) of
             (Inl e, c2) \<Rightarrow> (Inl e, c2)
           | (Inr (book_added', total_added'), c2) \<Rightarrow>
               repair_chapters net translation_code book_api translation_id book_id existing rest
                 book_added' total_added' (sleep 100 c2)))"

text \<open>The retry loop around \<open>conn.commit()\<close> (\<open>for attempt in range(5)\<close>).\<close>

fun commit_attempts :: "nat list \<Rightarrow> conn \<Rightarrow> (db_error + unit) \<times> conn" where
  "commit_attempts [] c = (Inr (), c)"
| "commit_attempts (attempt # rest) c =
     (case commit c of
        (Inr _, c') \<Rightarrow> (Inr (), c')
      | (Inl IntegrityError, c') \<Rightarrow> (Inl IntegrityError, c')
      | (Inl (OperationalError msg), c') \<Rightarrow>
          if locked msg \<and> attempt < 4 then
            commit_attempts rest (sleep 2000 (emit (Print CommitRetry) c'))
          else (Inl (OperationalError msg), c'))"

text \<open>
  \<open>len(existing) >= expected_total * 0.95\<close>. The script compares an integer with the
  product of an integer and the double nearest to 0.95. That double is below 0.95 by less
  than half a unit in the last place, so for counts of the size of a book the product
  rounds to \<open>0.95 * expected\<close> when this is an integer and lies strictly between the
  two neighbouring integers otherwise: the comparison has the same outcome as the exact
  one, \<open>19 * expected \<le> 20 * existing\<close>, which is what is written here.
\<close>

definition complete_enough :: "nat \<Rightarrow> int \<Rightarrow> bool" where
  "complete_enough existing_count expected_total \<longleftrightarrow> 19 * expected_total \<le> 20 * int existing_count"

text \<open>
  The body of the loop over the books, for one row \<open>(book_id, book_name)\<close>. The result
  holds the running totals \<open>total_added\<close> and \<open>total_missing\<close>.
\<close>

definition repair_book ::
    "cdn \<Rightarrow> string \<Rightarrow> string \<Rightarrow> int \<times> string \<Rightarrow> int \<Rightarrow> int \<Rightarrow> conn \<Rightarrow>
     (error + int \<times> int) \<times> conn" where
  "repair_book net translation_code translation_id book total_added total_missing c =
     (case book of (book_id, book_name) \<Rightarrow>
        (case map_of BOOK_NAMES book_name of
           None \<Rightarrow> (Inr (total_added, total_missing), emit (Print (UnknownBook book_name)) c)
         | Some book_api \<Rightarrow>
             if book_api = [] then
               (Inr (total_added, total_missing), emit (Print (UnknownBook book_name)) c)
             else
               let existing = get_existing_verses c translation_id book_id;
                   expected_total = (case map_of VERSE_COUNTS book_name of Some n \<Rightarrow> n | None \<Rightarrow> 0);
                   num_chapters = (case map_of CHAPTERS book_name of Some n \<Rightarrow> n | None \<Rightarrow> 0)
               in if complete_enough (card existing) expected_total then
                    (Inr (total_added, total_missing),
                     emit (Print (Complete book_name (card existing))) c)
                  else
                    (case repair_chapters net translation_code book_api translation_id book_id
                            existing [1..num_chapters] 0 total_added
                            (emit (Print (Progress book_name (card existing) expected_total)) c) of
                       (Inl e, c1) \<Rightarrow> (Inl e, c1)
                     | (Inr (book_added, total_added'), c1) \<Rightarrow>
                         (case commit_attempts [0..<5] c1 of
                            (Inl e, c2) \<Rightarrow> (Inl (StoreError e), c2)
                          | (Inr _, c2) \<Rightarrow>
                              (Inr (total_added',
                                    total_missing
                                      + max 0 (expected_total - int (card existing) - book_added)),
                               if book_added > 0 then emit (Print (Added book_added)) c2
                               else c2)))))"

text \<open>The loop over the books.\<close>

fun repair_books ::
    "cdn \<Rightarrow> string \<Rightarrow> string \<Rightarrow> (int \<times> string) list \<Rightarrow> int \<Rightarrow> int \<Rightarrow> conn \<Rightarrow>
     (error + int \<times> int) \<times> conn" where
  "repair_books net translation_code translation_id [] total_added total_missing c =
     (Inr (total_added, total_missing), c)"
| "repair_books net translation_code translation_id (book # rest) total_added total_missing c =
     (case repair_book net translation_code translation_id book total_added total_missing c of
        (Inl e, c') \<Rightarrow> (Inl e, c')
      | (Inr (total_added', total_missing'), c') \<Rightarrow>
          repair_books net translation_code translation_id rest total_added' total_missing' c')"

text \<open>
  \<open>repair_translation\<close>. The books are read with \<open>ORDER BY id\<close>. The script returns
  nothing; the totals appear in the line it prints last.
\<close>

definition repair_translation :: "cdn \<Rightarrow> string \<Rightarrow> conn \<Rightarrow> (error + unit) \<times> conn" where
  "repair_translation net translation_id c =
     (case map_of TRANSLATIONS translation_id of
        None \<Rightarrow> (Inr (), emit (Print (UnknownTranslation translation_id)) c)
      | Some translation_code \<Rightarrow>
          if translation_code = [] then
            (Inr (), emit (Print (UnknownTranslation translation_id)) c)
          else
            (case repair_books net translation_code translation_id (sort_key fst (books c)) 0 0 c of
               (Inl e, c') \<Rightarrow> (Inl e, c')
             | (Inr (total_added, total_missing), c') \<Rightarrow>
                 (Inr (), emit (Print (Summary translation_id total_added total_missing)) c')))"

subsection \<open>Small stores and providers\<close>

text \<open>
  Inputs on which the properties below are evaluated. The error of a locked store, with
  the message of SQLite; the entry of a first verse, and the row it is bound to.
\<close>

abbreviation lock_error :: db_error where
  "lock_error \<equiv> OperationalError ''database is locked''"

abbreviation first_entry :: json where
  "first_entry \<equiv> JObject [(''verse'', JInt 1), (''text'', JStr ''a'')]"

abbreviation first_row :: verse_row where
  "first_row \<equiv>
     \<lparr>row_translation_id = ''KJV'', row_book_id = 31, row_chapter = 1,
      row_verse = SqlInteger 1, row_text = SqlText ''a''\<rparr>"

text \<open>
  What SQLite makes of a value it stores in a column declared \<open>INTEGER\<close>, on the
  values the examples bind: an integer is kept, a text of up to eighteen decimal digits
  becomes the integer it spells, a real with an integral value of 64 bits becomes that
  integer. Other texts and reals are kept here as they are.
\<close>

definition digit_values :: "(char \<times> int) list" where
  "digit_values =
     [(CHR ''0'', 0), (CHR ''1'', 1), (CHR ''2'', 2), (CHR ''3'', 3), (CHR ''4'', 4),
      (CHR ''5'', 5), (CHR ''6'', 6), (CHR ''7'', 7), (CHR ''8'', 8), (CHR ''9'', 9)]"

fun decimal_value :: "int \<Rightarrow> string \<Rightarrow> int option" where
  "decimal_value n [] = Some n"
| "decimal_value n (ch # rest) =
     (case map_of digit_values ch of
        None \<Rightarrow> None
      | Some d \<Rightarrow> decimal_value (10 * n + d) rest)"

fun decimal_affinity :: "sqlval \<Rightarrow> sqlval" where
  "decimal_affinity (SqlInteger n) = SqlInteger n"
| "decimal_affinity (SqlText s) =
     (if s = [] \<or> 18 < length s then SqlText s
      else case decimal_value 0 s of None \<Rightarrow> SqlText s | Some n \<Rightarrow> SqlInteger n)"
| "decimal_affinity (SqlReal x) =
     (if of_int \<lfloor>x\<rfloor> = x \<and> - (2 ^ 63) \<le> \<lfloor>x\<rfloor> \<and> \<lfloor>x\<rfloor> < 2 ^ 63 then SqlInteger \<lfloor>x\<rfloor>
      else SqlReal x)"

text \<open>
  A provider that knows one chapter, Obadiah 1, and answers every other request with a
  timeout. Its list holds two proper verses, an entry whose verse number is zero, an
  entry without text, a second entry for verse 2, and an entry whose verse number is
  \<open>null\<close>.
\<close>

definition example_net :: cdn where
  "example_net code api ch =
     (if api = ''obadiah'' \<and> ch = 1 then
        Body (JObject
          [(''data'', JArray
             [JObject [(''verse'', JInt 1), (''text'', JStr ''a'')],
              JObject [(''verse'', JInt 2), (''text'', JStr ''b'')],
              JObject [(''verse'', JInt 0), (''number'', JInt 3), (''text'', JStr ''c'')],
              JObject [(''number'', JInt 4)],
              JObject [(''verse'', JInt 2), (''text'', JStr ''b2'')],
              JObject [(''verse'', JNull), (''number'', JInt 5), (''text'', JStr ''e'')]])])
      else Failed Timeout)"

text \<open>
  A provider that sends the verse numbers of Obadiah 1 as strings, and one that sends
  the string \<open>"0"\<close> for a verse number.
\<close>

definition quoted_net :: cdn where
  "quoted_net code api ch =
     (if api = ''obadiah'' \<and> ch = 1 then
        Body (JObject
          [(''data'', JArray
             [JObject [(''verse'', JStr ''1''), (''text'', JStr ''a'')],
              JObject [(''verse'', JStr ''2''), (''text'', JStr ''b'')]])])
      else Failed Timeout)"


text \<open>A provider that answers no request.\<close>

definition dead_net :: cdn where
  "dead_net code api ch = Failed NetworkError"

text \<open>
  A store with three books, one of them unknown to the tables, no verses, and a lock on
  the first store call.
\<close>

definition example_conn :: conn where
  "example_conn =
     \<lparr>books = [(57, ''Philemon''), (31, ''Obadiah''), (99, ''Tobit'')],
      verses = [],
      verse_affinity = decimal_affinity,
      faults = [Some (OperationalError ''database is locked'')],
      trace = []\<rparr>"

text \<open>
  A store in which another writer has already inserted Obadiah 1:1, while the set of
  existing keys the repair holds was read before that insert.
\<close>

definition racing_conn :: conn where
  "racing_conn =
     \<lparr>books = [(31, ''Obadiah'')],
      verses = [\<lparr>row_translation_id = ''KJV'', row_book_id = 31, row_chapter = 1,
                 row_verse = SqlInteger 1, row_text = SqlText ''a''\<rparr>],
      verse_affinity = decimal_affinity,
      faults = [],
      trace = []\<rparr>"

text \<open>
  A store whose only book is not in the tables, and a provider that would answer every
  request for it.
\<close>

definition tobit_conn :: conn where
  "tobit_conn =
     \<lparr>books = [(99, ''Tobit'')], verses = [], verse_affinity = decimal_affinity,
      faults = [], trace = []\<rparr>"

definition tobit_net :: cdn where
  "tobit_net code api ch =
     Body (JObject [(''verses'', JArray [JObject [(''verse'', JInt 1), (''text'', JStr ''t'')]])])"

text \<open>
  Stores under contention: an empty one that is locked at the next two calls, and one
  with the book Obadiah that is locked at the next three.
\<close>

definition locked_twice_conn :: conn where
  "locked_twice_conn =
     \<lparr>books = [], verses = [], verse_affinity = decimal_affinity,
      faults = [Some (OperationalError ''database is locked''),
                Some (OperationalError ''database is locked'')],
      trace = []\<rparr>"

definition locked_conn :: conn where
  "locked_conn =
     \<lparr>books = [(31, ''Obadiah'')], verses = [], verse_affinity = decimal_affinity,
      faults = [Some (OperationalError ''database is locked''),
                Some (OperationalError ''database is locked''),
                Some (OperationalError ''database is locked'')],
      trace = []\<rparr>"

text \<open>
  A store with the single book Philemon, which the example provider cannot serve: once
  without contention, once locked at the next five calls. And stores without contention
  that hold the book Obadiah alone, and the books Philemon and Obadiah.
\<close>

definition calm_conn :: conn where
  "calm_conn =
     \<lparr>books = [(57, ''Philemon'')], verses = [], verse_affinity = decimal_affinity,
      faults = [], trace = []\<rparr>"

definition five_locks_conn :: conn where
  "five_locks_conn =
     \<lparr>books = [(57, ''Philemon'')], verses = [], verse_affinity = decimal_affinity,
      faults = [Some lock_error, Some lock_error, Some lock_error, Some lock_error,
                Some lock_error],
      trace = []\<rparr>"

definition empty_obadiah_conn :: conn where
  "empty_obadiah_conn =
     \<lparr>books = [(31, ''Obadiah'')], verses = [], verse_affinity = decimal_affinity,
      faults = [], trace = []\<rparr>"

definition two_books_conn :: conn where
  "two_books_conn =
     \<lparr>books = [(57, ''Philemon''), (31, ''Obadiah'')], verses = [],
      verse_affinity = decimal_affinity, faults = [], trace = []\<rparr>"

text \<open>A store that holds the first \<open>n\<close> verses of Obadiah, which has 21.\<close>

definition obadiah_conn :: "int \<Rightarrow> conn" where
  "obadiah_conn n =
     \<lparr>books = [(31, ''Obadiah'')],
      verses = map (\<lambda>v. \<lparr>row_translation_id = ''KJV'', row_book_id = 31, row_chapter = 1,
                          row_verse = SqlInteger v, row_text = SqlText ''x''\<rparr>) [1..n],
      verse_affinity = decimal_affinity,
      faults = [], trace = []\<rparr>"

subsection \<open>Vocabulary of the proofs\<close>

text \<open>
  Names for the values the body of the book loop computes: the expected count and the
  number of chapters of a book (0 when the table has no entry), and the state after the
  line that announces the repair of a book.
\<close>

abbreviation expected_total_of :: "string \<Rightarrow> int" where
  "expected_total_of book_name \<equiv>
     (case map_of VERSE_COUNTS book_name of Some n \<Rightarrow> n | None \<Rightarrow> 0)"

abbreviation num_chapters_of :: "string \<Rightarrow> int" where
  "num_chapters_of book_name \<equiv>
     (case map_of CHAPTERS book_name of Some n \<Rightarrow> n | None \<Rightarrow> 0)"

abbreviation book_start :: "string \<Rightarrow> int \<times> string \<Rightarrow> conn \<Rightarrow> conn" where
  "book_start tid b c \<equiv>
     emit (Print (Progress (snd b) (card (get_existing_verses c tid (fst b)))
                   (expected_total_of (snd b)))) c"

text \<open>
  What the loop over the entries of a chapter is given: the elements of the value the
  request yields, none when the request yields \<open>None\<close> or a value that counts as
  false, and the error of the iteration when the value cannot be iterated. It depends on
  the provider only, not on the connection.
\<close>

definition chapter_entries :: "cdn \<Rightarrow> string \<Rightarrow> string \<Rightarrow> int \<Rightarrow> error + json list" where
  "chapter_entries net code api ch =
     (case fst (download_chapter net code api ch
                  \<lparr>books = [], verses = [], verse_affinity = (\<lambda>x. x), faults = [], trace = []\<rparr>) of
        None \<Rightarrow> Inr []
      | Some x \<Rightarrow> if py_not x then Inr [] else iterate x)"

text \<open>
  What the loop over the entries does with one entry, before any call of the store: it
  ends with an error, passes the entry over, or goes on to insert a row.
\<close>

datatype verdict = Stop error | Pass | Try verse_row

definition entry_verdict ::
    "string \<Rightarrow> int \<Rightarrow> int \<Rightarrow> (int \<times> json) set \<Rightarrow> json \<Rightarrow> verdict" where
  "entry_verdict tid bid ch E v =
     (case verse_num_of v of
        Inl e \<Rightarrow> Stop e
      | Inr verse_num \<Rightarrow>
          (case text_of v of
             Inl e \<Rightarrow> Stop e
           | Inr text \<Rightarrow>
               if py_not verse_num \<or> py_not text then Pass
               else if hashable verse_num = False then Stop TypeError
               else if (ch, key_of verse_num) \<in> E then Pass
               else (case bind_row tid bid ch verse_num text of
                       Inl e \<Rightarrow> Stop e
                     | Inr None \<Rightarrow> Pass
                     | Inr (Some row) \<Rightarrow> Try row)))"

text \<open>
  A book enters the repair when it has a provider name and is not complete enough; the
  other books are passed over.
\<close>

definition enters_repair :: "string \<Rightarrow> int \<times> string \<Rightarrow> conn \<Rightarrow> bool" where
  "enters_repair tid b c =
     (case map_of BOOK_NAMES (snd b) of
        None \<Rightarrow> False
      | Some api \<Rightarrow>
          api \<noteq> [] \<and>
          \<not> complete_enough (card (get_existing_verses c tid (fst b)))
              (expected_total_of (snd b)))"

text \<open>Kinds of events, and the delays of a trace in order.\<close>

fun is_fetch :: "event \<Rightarrow> bool" where
  "is_fetch (Fetch _ _ _) = True"
| "is_fetch _ = False"

fun is_verse_fetch :: "event \<Rightarrow> bool" where
  "is_verse_fetch (FetchVerse _ _ _ _) = True"
| "is_verse_fetch _ = False"

fun is_insert :: "event \<Rightarrow> bool" where
  "is_insert (Insert _ _) = True"
| "is_insert _ = False"

fun is_commit_ok :: "event \<Rightarrow> bool" where
  "is_commit_ok (Commit None) = True"
| "is_commit_ok _ = False"

fun delays :: "event list \<Rightarrow> nat list" where
  "delays [] = []"
| "delays (Sleep ms # es) = ms # delays es"
| "delays (_ # es) = delays es"

text \<open>
  A bound value that comes from a Python value that counts as true: an integer or a real
  other than zero, or a text that is not empty.
\<close>

fun nonzero_value :: "sqlval \<Rightarrow> bool" where
  "nonzero_value (SqlInteger n) = (n \<noteq> 0)"
| "nonzero_value (SqlReal x) = (x \<noteq> 0)"
| "nonzero_value (SqlText s) = (s \<noteq> [])"

text \<open>
  What every step of the script does to a connection: the books and the rule of the
  store for column \<open>verse\<close> stay, rows are appended to the verses, each of them of the
  translation under repair and with values for verse and text that were bound from values
  that count as true; events are appended to the trace, none of them a request for a single
  verse; and answers of the store are used up from the front.
\<close>

definition well_formed_row :: "string \<Rightarrow> verse_row \<Rightarrow> bool" where
  "well_formed_row tid r \<longleftrightarrow>
     row_translation_id r = tid \<and> nonzero_value (row_verse r) \<and> nonzero_value (row_text r)"

definition grows :: "string \<Rightarrow> conn \<Rightarrow> conn \<Rightarrow> bool" where
  "grows tid c c' \<longleftrightarrow>
     books c' = books c \<and> verse_affinity c' = verse_affinity c \<and>
     (\<exists>rs. verses c' = verses c @ rs \<and> list_all (well_formed_row tid) rs) \<and>
     (\<exists>es. trace c' = trace c @ es \<and> list_all (\<lambda>e. \<not> is_verse_fetch e) es) \<and>
     (\<exists>k. faults c' = drop k (faults c))"

text \<open>
  A step that leaves the two tables alone and calls no \<open>INSERT\<close>.
\<close>

definition same_store :: "conn \<Rightarrow> conn \<Rightarrow> bool" where
  "same_store c c' \<longleftrightarrow>
     books c' = books c \<and> verses c' = verses c \<and>
     filter is_insert (trace c') = filter is_insert (trace c)"

text \<open>
  The state after a pass over chapters whose requests all failed: for each chapter the
  request and the delay that follows it. And the requests a run makes when it goes through
  the given books without an error: for every book that enters the repair, one for each
  of its chapters, in order.
\<close>

definition failed_pass :: "string \<Rightarrow> string \<Rightarrow> int list \<Rightarrow> conn \<Rightarrow> conn" where
  "failed_pass code api chs c = foldl (\<lambda>c ch. sleep 100 (emit (Fetch code api ch) c)) c chs"

definition chapter_requests :: "string \<Rightarrow> string \<Rightarrow> (int \<times> string) list \<Rightarrow> conn \<Rightarrow> event list" where
  "chapter_requests code tid bs c =
     concat (map (\<lambda>b. case map_of BOOK_NAMES (snd b) of
                        None \<Rightarrow> []
                      | Some api \<Rightarrow> map (Fetch code api) [1..num_chapters_of (snd b)])
               (filter (\<lambda>b. enters_repair tid b c) bs))"

text \<open>
  A retry with a bound, in the words of its description: of the answers the store is going
  to give, the loop takes the first, and goes on to the next as long as the answer was a
  lock error and the bound is not reached. \<open>retry_outcomes n\<close> is the list of answers a
  loop of at most \<open>n\<close> attempts takes; a store whose script has run out answers with
  success.
\<close>

fun is_lock :: "db_error option \<Rightarrow> bool" where
  "is_lock (Some (OperationalError msg)) = locked msg"
| "is_lock _ = False"

fun retry_outcomes :: "nat \<Rightarrow> db_error option list \<Rightarrow> db_error option list" where
  "retry_outcomes 0 fs = []"
| "retry_outcomes (Suc n) [] = [None]"
| "retry_outcomes (Suc n) (f # fs) = (if is_lock f \<and> 0 < n then f # retry_outcomes n fs else [f])"

text \<open>
  The events of a retried \<open>INSERT\<close> and of a retried \<open>commit\<close> with the given
  answers: one call per answer, and between two calls the delay (with the line the commit
  prints before it).
\<close>

fun insert_calls :: "verse_row \<Rightarrow> db_error option list \<Rightarrow> event list" where
  "insert_calls row [] = []"
| "insert_calls row [out] = [Insert row out]"
| "insert_calls row (out # outs) = Insert row out # Sleep 1000 # insert_calls row outs"

fun commit_calls :: "db_error option list \<Rightarrow> event list" where
  "commit_calls [] = []"
| "commit_calls [out] = [Commit out]"
| "commit_calls (out # outs) = Commit out # Print CommitRetry # Sleep 2000 # commit_calls outs"

text \<open>
  What the two retry loops are to compute, to be compared with \<open>insert_attempts\<close> and
  \<open>commit_attempts\<close>: the result is decided by the last answer taken, the answers taken
  are removed from the script, a row is appended when the last answer was success, and the
  calls appear in the trace.
\<close>

definition insert_spec :: "nat \<Rightarrow> verse_row \<Rightarrow> conn \<Rightarrow> (db_error + bool) \<times> conn" where
  "insert_spec n row c =
     (let outs = retry_outcomes n (faults c)
      in (case last outs of
            None \<Rightarrow> Inr True
          | Some IntegrityError \<Rightarrow> Inr False
          | Some (OperationalError msg) \<Rightarrow> Inl (OperationalError msg),
          c\<lparr>faults := drop (length outs) (faults c),
            verses := (if last outs = None then verses c @ [row] else verses c),
            trace := trace c @ insert_calls row outs\<rparr>))"

definition commit_spec :: "nat \<Rightarrow> conn \<Rightarrow> (db_error + unit) \<times> conn" where
  "commit_spec n c =
     (let outs = retry_outcomes n (faults c)
      in (case last outs of
            None \<Rightarrow> Inr ()
          | Some e \<Rightarrow> Inl e,
          c\<lparr>faults := drop (length outs) (faults c),
            trace := trace c @ commit_calls outs\<rparr>))"

text \<open>
  The figures of the books a run has repaired, in the order of the run: for every book
  that entered the repair and did not end in an error, the expected count, the number of
  keys that existed when the book was entered, and the number of rows the book's pass
  appended to the table.
\<close>

fun document_stats ::
    "cdn \<Rightarrow> string \<Rightarrow> string \<Rightarrow> (int \<times> string) list \<Rightarrow> int \<Rightarrow> int \<Rightarrow> conn \<Rightarrow>
     (int \<times> int \<times> int) list" where
  "document_stats net code tid [] total_added total_missing c = []"
| "document_stats net code tid (b # rest) total_added total_missing c =
     (case repair_book net code tid b total_added total_missing c of
        (Inl e, c') \<Rightarrow> []
      | (Inr (total_added', total_missing'), c') \<Rightarrow>
          (if enters_repair tid b c then
             [(expected_total_of (snd b),
               int (card (get_existing_verses c tid (fst b))),
               int (length (verses c')) - int (length (verses c)))]
           else []) @
          document_stats net code tid rest total_added' total_missing' c')"

section \<open>Properties\<close>

subsection \<open>Every step only extends the store and the trace\<close>

lemma range3: "[0..<3] = [0, 1, 2]"
  by (simp add: upt_rec numeral_eq_Suc)

lemma range5: "[0..<5] = [0, 1, 2, 3, 4]"
  by (simp add: upt_rec numeral_eq_Suc)

lemma emit_simps [simp]:
  "books (emit e c) = books c" "verses (emit e c) = verses c"
  "verse_affinity (emit e c) = verse_affinity c"
  "faults (emit e c) = faults c" "trace (emit e c) = trace c @ [e]"
  by (simp_all add: emit_def)

lemma sleep_simps [simp]:
  "books (sleep n c) = books c" "verses (sleep n c) = verses c"
  "verse_affinity (sleep n c) = verse_affinity c"
  "faults (sleep n c) = faults c" "trace (sleep n c) = trace c @ [Sleep n]"
  by (simp_all add: sleep_def)

lemma existing_emit [simp]:
  "get_existing_verses (emit e c) t b = get_existing_verses c t b"
  "get_existing_verses (sleep n c) t b = get_existing_verses c t b"
  by (simp_all add: get_existing_verses_def)

lemma grows_refl [simp]: "grows tid c c"
  unfolding grows_def
  by (auto intro: exI [of _ "[]"] exI [of _ "0::nat"])

lemma grows_trans:
  assumes "grows tid a b" and "grows tid b c"
  shows "grows tid a c"
proof -
  from assms(1) obtain rs es k where
    ab: "books b = books a" "verse_affinity b = verse_affinity a"
      "verses b = verses a @ rs" "list_all (well_formed_row tid) rs"
      "trace b = trace a @ es" "list_all (\<lambda>e. \<not> is_verse_fetch e) es"
      "faults b = drop k (faults a)"
    unfolding grows_def by blast
  from assms(2) obtain rs' es' k' where
    bc: "books c = books b" "verse_affinity c = verse_affinity b"
      "verses c = verses b @ rs'" "list_all (well_formed_row tid) rs'"
      "trace c = trace b @ es'" "list_all (\<lambda>e. \<not> is_verse_fetch e) es'"
      "faults c = drop k' (faults b)"
    unfolding grows_def by blast
  have v: "\<exists>new. verses c = verses a @ new \<and> list_all (well_formed_row tid) new"
    using ab bc by (intro exI [of _ "rs @ rs'"]) simp
  have t: "\<exists>new. trace c = trace a @ new \<and> list_all (\<lambda>e. \<not> is_verse_fetch e) new"
    using ab bc by (intro exI [of _ "es @ es'"]) simp
  have f: "\<exists>j. faults c = drop j (faults a)"
    using ab bc by (intro exI [of _ "k + k'"]) (simp add: add.commute)
  have b: "books c = books a" "verse_affinity c = verse_affinity a"
    using ab bc by simp_all
  show ?thesis
    unfolding grows_def using b v t f by (intro conjI)
qed

lemma grows_emit: "\<not> is_verse_fetch e \<Longrightarrow> grows tid c (emit e c)"
  unfolding grows_def
  by (auto intro: exI [of _ "[]"] exI [of _ "0::nat"])

lemma grows_sleep: "grows tid c (sleep n c)"
  unfolding sleep_def by (rule grows_emit) simp

lemma execute_insert_grows:
  "well_formed_row tid row \<Longrightarrow> grows tid c (snd (execute_insert row c))"
  unfolding grows_def execute_insert_def next_fault_def
  by (auto split: list.splits option.splits intro: exI [of _ "[]"] exI [of _ "0::nat"] exI [of _ "Suc 0"])

lemma commit_grows: "grows tid c (snd (commit c))"
  unfolding grows_def commit_def next_fault_def
  by (auto split: list.splits option.splits intro: exI [of _ "[]"] exI [of _ "0::nat"] exI [of _ "Suc 0"])

lemma insert_attempts_grows:
  "well_formed_row tid row \<Longrightarrow> grows tid c (snd (insert_attempts as row c))"
proof (induction as arbitrary: c)
  case Nil
  show ?case by simp
next
  case (Cons a as)
  obtain r c1 where ex: "execute_insert row c = (r, c1)" by (cases "execute_insert row c")
  have g1: "grows tid c c1" using execute_insert_grows [OF Cons.prems, of c] ex by simp
  show ?case
  proof (cases r)
    case (Inr u)
    then show ?thesis using ex g1 by simp
  next
    case (Inl e)
    show ?thesis
    proof (cases e)
      case IntegrityError
      then show ?thesis using ex g1 Inl by simp
    next
      case (OperationalError msg)
      have "grows tid c1 (snd (insert_attempts as row (sleep 1000 c1)))"
        using grows_trans [OF grows_sleep Cons.IH [OF Cons.prems]] .
      then show ?thesis using ex g1 Inl OperationalError
        by (auto intro: grows_trans)
    qed
  qed
qed

lemma commit_attempts_grows: "grows tid c (snd (commit_attempts as c))"
proof (induction as arbitrary: c)
  case Nil
  show ?case by simp
next
  case (Cons a as)
  obtain r c1 where ex: "commit c = (r, c1)" by (cases "commit c")
  have g1: "grows tid c c1" using commit_grows [of tid c] ex by simp
  show ?case
  proof (cases r)
    case (Inr u)
    then show ?thesis using ex g1 by simp
  next
    case (Inl e)
    show ?thesis
    proof (cases e)
      case IntegrityError
      then show ?thesis using ex g1 Inl by simp
    next
      case (OperationalError msg)
      have "grows tid c1 (snd (commit_attempts as (sleep 2000 (emit (Print CommitRetry) c1))))"
        by (rule grows_trans [OF grows_emit grows_trans [OF grows_sleep Cons.IH]]) simp
      then show ?thesis using ex g1 Inl OperationalError
        by (auto intro: grows_trans)
    qed
  qed
qed

text \<open>
  What binds from values that count as true is not \<open>NULL\<close> and is not zero or empty.
\<close>

lemma bind_param_truthy:
  "py_not x = False \<Longrightarrow> bind_param x = Inr r \<Longrightarrow> \<exists>sv. r = Some sv \<and> nonzero_value sv"
  by (cases x) (auto split: if_splits)

lemma bind_row_truthy:
  assumes "py_not verse_num = False" and "py_not text = False"
    and "bind_row tid bid ch verse_num text = Inr r"
  shows "\<exists>row. r = Some row \<and> well_formed_row tid row \<and> row_chapter row = ch \<and>
           row_book_id row = bid \<and> bind_param verse_num = Inr (Some (row_verse row)) \<and>
           bind_param text = Inr (Some (row_text row))"
proof -
  obtain r1 where b1: "bind_param verse_num = Inr r1"
    using assms(3) by (cases "bind_param verse_num") (simp_all add: bind_row_def)
  obtain r2 where b2: "bind_param text = Inr r2"
    using assms(3) b1 by (cases "bind_param text") (simp_all add: bind_row_def)
  obtain vv where vv: "r1 = Some vv" "nonzero_value vv"
    using bind_param_truthy [OF assms(1) b1] by blast
  obtain tv where tv: "r2 = Some tv" "nonzero_value tv"
    using bind_param_truthy [OF assms(2) b2] by blast
  show ?thesis
    using assms(3) b1 b2 vv tv by (auto simp: bind_row_def well_formed_row_def)
qed

lemma entry_verdict_Try:
  assumes "entry_verdict tid bid ch E v = Try row"
  shows "well_formed_row tid row"
proof -
  obtain n where n: "verse_num_of v = Inr n"
    using assms by (cases "verse_num_of v") (simp_all add: entry_verdict_def)
  obtain t where t: "text_of v = Inr t"
    using assms n by (cases "text_of v") (simp_all add: entry_verdict_def)
  have tr: "py_not n = False" "py_not t = False"
    using assms n t by (auto simp: entry_verdict_def split: if_splits)
  have br: "bind_row tid bid ch n t = Inr (Some row)"
    using assms n t tr
    by (auto simp: entry_verdict_def split: if_splits sum.splits option.splits)
  show ?thesis using bind_row_truthy [OF tr br] by simp
qed

lemma repair_verses_step:
  "repair_verses tid bid ch E (v # vs) ba ta c =
     (case entry_verdict tid bid ch E v of
        Stop e \<Rightarrow> (Inl e, c)
      | Pass \<Rightarrow> repair_verses tid bid ch E vs ba ta c
      | Try row \<Rightarrow>
          (case insert_attempts [0..<3] row c of
             (Inl e, c') \<Rightarrow> (Inl (StoreError e), c')
           | (Inr True, c') \<Rightarrow> repair_verses tid bid ch E vs (ba + 1) (ta + 1) c'
           | (Inr False, c') \<Rightarrow> repair_verses tid bid ch E vs ba ta c'))"
  by (simp add: entry_verdict_def split: sum.splits option.splits)

declare repair_verses.simps(2) [simp del]

lemma repair_verses_grows:
  "grows tid c (snd (repair_verses tid bid ch E vs ba ta c))"
proof (induction vs arbitrary: ba ta c)
  case Nil
  show ?case by simp
next
  case (Cons v vs)
  show ?case
  proof (cases "entry_verdict tid bid ch E v")
    case (Stop e)
    then show ?thesis by (simp add: repair_verses_step)
  next
    case Pass
    then show ?thesis using Cons.IH by (simp add: repair_verses_step)
  next
    case (Try row)
    have wf: "well_formed_row tid row" using Try by (rule entry_verdict_Try)
    obtain r c1 where ia: "insert_attempts [0..<3] row c = (r, c1)"
      by (cases "insert_attempts [0..<3] row c")
    have g1: "grows tid c c1" using insert_attempts_grows [OF wf, of c "[0..<3]"] ia by simp
    show ?thesis
    proof (cases r)
      case (Inl e)
      then show ?thesis using Try ia g1 by (simp add: repair_verses_step)
    next
      case (Inr b)
      then show ?thesis using Try ia grows_trans [OF g1 Cons.IH]
        by (cases b) (simp_all add: repair_verses_step)
    qed
  qed
qed

lemma download_chapter_grows: "grows tid c (snd (download_chapter net code api ch c))"
  unfolding download_chapter_def
  by (auto simp: Let_def split: response.splits sum.splits intro: grows_emit)

lemma download_chapter_entries:
  "download_chapter net code api ch c =
     (fst (download_chapter net code api ch c), emit (Fetch code api ch) c)"
  "(case fst (download_chapter net code api ch c) of
      None \<Rightarrow> Inr []
    | Some x \<Rightarrow> if py_not x then Inr [] else iterate x) = chapter_entries net code api ch"
  by (simp_all add: download_chapter_def chapter_entries_def Let_def
        split: response.splits sum.splits)

lemma repair_chapters_step:
  "repair_chapters net code api tid bid E (ch # rest) ba ta c =
     (case chapter_entries net code api ch of
        Inl e \<Rightarrow> (Inl e, emit (Fetch code api ch) c)
      | Inr vs \<Rightarrow>
          (case repair_verses tid bid ch E vs ba ta (emit (Fetch code api ch) c) of
             (Inl e, c2) \<Rightarrow> (Inl e, c2)
           | (Inr (ba', ta'), c2) \<Rightarrow>
               repair_chapters net code api tid bid E rest ba' ta' (sleep 100 c2)))"
  by (simp add: download_chapter_def chapter_entries_def Let_def
        split: response.splits option.splits sum.splits)

declare repair_chapters.simps(2) [simp del]

lemma repair_chapters_grows:
  "grows tid c (snd (repair_chapters net code api tid bid E chs ba ta c))"
proof (induction chs arbitrary: ba ta c)
  case Nil
  show ?case by simp
next
  case (Cons ch chs)
  let ?c0 = "emit (Fetch code api ch) c"
  have g0: "grows tid c ?c0" by (rule grows_emit) simp
  show ?case
  proof (cases "chapter_entries net code api ch")
    case (Inl e)
    then show ?thesis using g0 by (simp add: repair_chapters_step)
  next
    case (Inr vs)
    obtain r c2 where rv: "repair_verses tid bid ch E vs ba ta ?c0 = (r, c2)"
      by (cases "repair_verses tid bid ch E vs ba ta ?c0")
    have g2: "grows tid c c2"
      using grows_trans [OF g0 repair_verses_grows [of tid ?c0 bid ch E vs ba ta]] rv by simp
    show ?thesis
    proof (cases r)
      case (Inl e)
      then show ?thesis using Inr rv g2 by (simp add: repair_chapters_step)
    next
      case r: (Inr p)
      obtain ba' ta' where p: "p = (ba', ta')" by (cases p)
      have "grows tid c2 (snd (repair_chapters net code api tid bid E chs ba' ta' (sleep 100 c2)))"
        by (rule grows_trans [OF grows_sleep Cons.IH])
      with g2 have "grows tid c (snd (repair_chapters net code api tid bid E chs ba' ta' (sleep 100 c2)))"
        by (rule grows_trans)
      then show ?thesis using Inr rv r p by (simp add: repair_chapters_step)
    qed
  qed
qed

lemma repair_book_grows:
  "grows tid c (snd (repair_book net code tid b ta tm c))"
proof -
  obtain bid name where b: "b = (bid, name)" by (cases b)
  show ?thesis
  proof (cases "map_of BOOK_NAMES name")
    case None
    then show ?thesis using b by (simp add: repair_book_def grows_emit)
  next
    case (Some api)
    define E where "E = get_existing_verses c tid bid"
    define expected where "expected = (case map_of VERSE_COUNTS name of Some n \<Rightarrow> n | None \<Rightarrow> 0)"
    define n where "n = (case map_of CHAPTERS name of Some n \<Rightarrow> n | None \<Rightarrow> (0::int))"
    define c0 where "c0 = emit (Print (Progress name (card E) expected)) c"
    have g0: "grows tid c c0" unfolding c0_def by (rule grows_emit) simp
    obtain r c1 where rc: "repair_chapters net code api tid bid E [1..n] 0 ta c0 = (r, c1)"
      by (cases "repair_chapters net code api tid bid E [1..n] 0 ta c0")
    have g1: "grows tid c c1"
      using grows_trans [OF g0 repair_chapters_grows [of tid c0 net code api bid E "[1..n]" 0 ta]] rc
      by simp
    obtain r2 c2 where cm: "commit_attempts [0..<5] c1 = (r2, c2)"
      by (cases "commit_attempts [0..<5] c1")
    have g2: "grows tid c c2"
      using grows_trans [OF g1 commit_attempts_grows [of tid c1 "[0..<5]"]] cm by simp
    have g3: "grows tid c (emit (Print (Added k)) c2)" for k
      by (rule grows_trans [OF g2 grows_emit]) simp
    show ?thesis
      using b Some rc cm g1 g2 g3
      unfolding repair_book_def
      by (auto simp: Let_def E_def [symmetric] expected_def [symmetric] n_def [symmetric]
            c0_def [symmetric] grows_emit split: sum.splits prod.splits)
  qed
qed

lemma repair_books_grows:
  "grows tid c (snd (repair_books net code tid bs ta tm c))"
proof (induction bs arbitrary: ta tm c)
  case Nil
  show ?case by simp
next
  case (Cons b bs)
  obtain r c1 where rb: "repair_book net code tid b ta tm c = (r, c1)"
    by (cases "repair_book net code tid b ta tm c")
  have g1: "grows tid c c1" using repair_book_grows [of tid c net code b ta tm] rb by simp
  show ?case
  proof (cases r)
    case (Inl e)
    then show ?thesis using rb g1 by simp
  next
    case (Inr p)
    obtain ta' tm' where p: "p = (ta', tm')" by (cases p)
    show ?thesis using rb Inr p grows_trans [OF g1 Cons.IH] by simp
  qed
qed

lemma repair_translation_grows:
  "grows tid c (snd (repair_translation net tid c))"
proof (cases "map_of TRANSLATIONS tid")
  case None
  then show ?thesis by (simp add: repair_translation_def grows_emit)
next
  case (Some code)
  let ?bs = "sort_key fst (books c)"
  obtain r c1 where rb: "repair_books net code tid ?bs 0 0 c = (r, c1)"
    by (cases "repair_books net code tid ?bs 0 0 c")
  have g1: "grows tid c c1" using repair_books_grows [of tid c net code ?bs 0 0] rb by simp
  have g2: "grows tid c (emit (Print m) c1)" for m
    by (rule grows_trans [OF g1 grows_emit]) simp
  show ?thesis using Some rb g1 g2
    by (auto simp: repair_translation_def grows_emit split: sum.splits prod.splits)
qed

lemma same_store_refl [simp]: "same_store c c"
  by (simp add: same_store_def)

lemma same_store_trans: "same_store a b \<Longrightarrow> same_store b c \<Longrightarrow> same_store a c"
  by (simp add: same_store_def)

lemma same_store_emit: "\<not> is_insert e \<Longrightarrow> same_store c (emit e c)"
  by (simp add: same_store_def)

lemma same_store_sleep: "same_store c (sleep n c)"
  by (simp add: same_store_def)

lemma commit_same_store: "same_store c (snd (commit c))"
  by (simp add: commit_def next_fault_def same_store_def split: list.splits option.splits)

lemma commit_attempts_same_store: "same_store c (snd (commit_attempts as c))"
proof (induction as arbitrary: c)
  case Nil
  show ?case by simp
next
  case (Cons a as)
  obtain r c1 where ex: "commit c = (r, c1)" by (cases "commit c")
  have g1: "same_store c c1" using commit_same_store [of c] ex by simp
  show ?case
  proof (cases r)
    case (Inr u)
    then show ?thesis using ex g1 by simp
  next
    case (Inl e)
    show ?thesis
    proof (cases e)
      case IntegrityError
      then show ?thesis using ex g1 Inl by simp
    next
      case (OperationalError msg)
      have "same_store c1 (sleep 2000 (emit (Print CommitRetry) c1))"
        by (simp add: same_store_def)
      then have "same_store c1 (snd (commit_attempts as (sleep 2000 (emit (Print CommitRetry) c1))))"
        using Cons.IH same_store_trans by blast
      then show ?thesis using ex g1 Inl OperationalError
        by (auto intro: same_store_trans)
    qed
  qed
qed

lemma commit_attempts_calm:
  "faults c = [] \<Longrightarrow> \<exists>c'. commit_attempts (a # as) c = (Inr (), c') \<and> faults c' = []"
  by (simp add: commit_def next_fault_def)


lemma finite_existing [simp]: "finite (get_existing_verses c t b)"
  by (simp add: get_existing_verses_def)

subsection \<open>The body of the book loop, case by case\<close>

lemma same_store_existing:
  "verses c' = verses c \<Longrightarrow> verse_affinity c' = verse_affinity c \<Longrightarrow>
   get_existing_verses c' t b = get_existing_verses c t b"
  by (simp add: get_existing_verses_def)

lemma repair_book_unmapped:
  "map_of BOOK_NAMES name = None \<or> map_of BOOK_NAMES name = Some [] \<Longrightarrow>
   repair_book net code tid (bid, name) ta tm c =
     (Inr (ta, tm), emit (Print (UnknownBook name)) c)"
  by (auto simp: repair_book_def)

lemma repair_book_complete:
  "map_of BOOK_NAMES name = Some api \<Longrightarrow> api \<noteq> [] \<Longrightarrow>
   complete_enough (card (get_existing_verses c tid bid))
     (case map_of VERSE_COUNTS name of Some n \<Rightarrow> n | None \<Rightarrow> 0) \<Longrightarrow>
   repair_book net code tid (bid, name) ta tm c =
     (Inr (ta, tm), emit (Print (Complete name (card (get_existing_verses c tid bid)))) c)"
  by (simp add: repair_book_def Let_def)

lemma repair_book_repair:
  assumes "map_of BOOK_NAMES name = Some api" and "api \<noteq> []"
    and "E = get_existing_verses c tid bid"
    and "expected = (case map_of VERSE_COUNTS name of Some n \<Rightarrow> n | None \<Rightarrow> 0)"
    and "n = (case map_of CHAPTERS name of Some n \<Rightarrow> n | None \<Rightarrow> 0)"
    and "\<not> complete_enough (card E) expected"
    and "repair_chapters net code api tid bid E [1..n] 0 ta
           (emit (Print (Progress name (card E) expected)) c) = (r1, c1)"
    and "commit_attempts [0..<5] c1 = (r2, c2)"
  shows "repair_book net code tid (bid, name) ta tm c =
     (case r1 of
        Inl e \<Rightarrow> (Inl e, c1)
      | Inr p \<Rightarrow>
          (case r2 of
             Inl e \<Rightarrow> (Inl (StoreError e), c2)
           | Inr u \<Rightarrow>
               (Inr (snd p, tm + max 0 (expected - int (card E) - fst p)),
                if fst p > 0 then emit (Print (Added (fst p))) c2 else c2)))"
proof (cases r1)
  case (Inl e)
  then show ?thesis using assms(1-7) by (simp add: repair_book_def Let_def)
next
  case (Inr p)
  obtain ba ta' where p: "p = (ba, ta')" by (cases p)
  show ?thesis
  proof (cases r2)
    case (Inl e)
    then show ?thesis using assms Inr p by (simp add: repair_book_def Let_def)
  next
    case r2: (Inr u)
    then show ?thesis using assms Inr p by (simp add: repair_book_def Let_def)
  qed
qed

lemma repair_translation_unknown:
  "map_of TRANSLATIONS tid = None \<or> map_of TRANSLATIONS tid = Some [] \<Longrightarrow>
   repair_translation net tid c = (Inr (), emit (Print (UnknownTranslation tid)) c)"
  by (auto simp: repair_translation_def)

lemma repair_translation_known:
  assumes "map_of TRANSLATIONS tid = Some code" and "code \<noteq> []"
    and "repair_books net code tid (sort_key fst (books c)) 0 0 c = (r, c')"
  shows "repair_translation net tid c =
     (case r of
        Inl e \<Rightarrow> (Inl e, c')
      | Inr p \<Rightarrow> (Inr (), emit (Print (Summary tid (fst p) (snd p))) c'))"
proof (cases r)
  case (Inl e)
  then show ?thesis using assms by (simp add: repair_translation_def)
next
  case (Inr p)
  then show ?thesis using assms by (cases p) (simp add: repair_translation_def)
qed

subsection \<open>The tables\<close>

lemma table_keys: "map fst VERSE_COUNTS = map fst BOOK_NAMES" "map fst CHAPTERS = map fst BOOK_NAMES"
  by (simp_all add: VERSE_COUNTS_def BOOK_NAMES_def CHAPTERS_def)

lemma map_of_None_keys:
  "map fst xs = map fst ys \<Longrightarrow> map_of xs k = None \<longleftrightarrow> map_of ys k = None"
  by (metis map_of_eq_None_iff set_map)

lemma unknown_count_unmapped:
  "map_of VERSE_COUNTS name = None \<Longrightarrow> map_of BOOK_NAMES name = None"
  using map_of_None_keys [OF table_keys(1)] by blast

subsection \<open>The two retry loops\<close>

lemma retry_outcomes_nonempty: "retry_outcomes (Suc n) fs \<noteq> []"
  by (cases fs) simp_all

lemma retry_outcomes_length: "length (retry_outcomes n fs) \<le> n"
  by (induction n fs rule: retry_outcomes.induct) simp_all

lemma retry_outcomes_locks: "list_all is_lock (butlast (retry_outcomes n fs))"
  by (induction n fs rule: retry_outcomes.induct) (simp_all add: retry_outcomes_nonempty)

lemma retry_outcomes_exhausted:
  "is_lock (last (retry_outcomes (Suc n) fs)) \<Longrightarrow> length (retry_outcomes (Suc n) fs) = Suc n"
proof (induction n arbitrary: fs)
  case 0
  then show ?case by (cases fs) simp_all
next
  case (Suc n)
  then show ?case
    by (cases fs) (auto simp: retry_outcomes_nonempty split: if_splits)
qed

lemma insert_calls_Cons:
  "outs \<noteq> [] \<Longrightarrow> insert_calls row (out # outs) = Insert row out # Sleep 1000 # insert_calls row outs"
  by (cases outs) simp_all

lemma commit_calls_Cons:
  "outs \<noteq> [] \<Longrightarrow>
   commit_calls (out # outs) = Commit out # Print CommitRetry # Sleep 2000 # commit_calls outs"
  by (cases outs) simp_all

lemma insert_attempts_last:
  assumes a: "\<not> a < 2"
  shows "insert_attempts (a # as) row c = insert_spec (Suc 0) row c"
proof (cases "faults c")
  case Nil
  then show ?thesis
    by (simp add: insert_spec_def execute_insert_def next_fault_def emit_def)
next
  case (Cons f fs)
  show ?thesis
  proof (cases f)
    case None
    then show ?thesis using Cons
      by (simp add: insert_spec_def execute_insert_def next_fault_def emit_def)
  next
    case (Some e)
    then show ?thesis using Cons a
      by (cases e) (simp_all add: insert_spec_def execute_insert_def next_fault_def emit_def)
  qed
qed

lemma insert_attempts_retry:
  assumes IH: "\<And>c. insert_attempts as row c = insert_spec (Suc j) row c" and a: "a < 2"
  shows "insert_attempts (a # as) row c = insert_spec (Suc (Suc j)) row c"
proof (cases "faults c")
  case Nil
  then show ?thesis
    by (simp add: insert_spec_def execute_insert_def next_fault_def emit_def)
next
  case (Cons f fs)
  show ?thesis
  proof (cases f)
    case None
    then show ?thesis using Cons
      by (simp add: insert_spec_def execute_insert_def next_fault_def emit_def)
  next
    case (Some e)
    show ?thesis
    proof (cases e)
      case IntegrityError
      then show ?thesis using Cons Some
        by (simp add: insert_spec_def execute_insert_def next_fault_def emit_def)
    next
      case (OperationalError msg)
      show ?thesis
      proof (cases "locked msg")
        case False
        then show ?thesis using Cons Some OperationalError
          by (simp add: insert_spec_def execute_insert_def next_fault_def emit_def)
      next
        case True
        then show ?thesis using Cons Some OperationalError a
          by (simp add: IH insert_spec_def execute_insert_def next_fault_def emit_def sleep_def
                Let_def insert_calls_Cons retry_outcomes_nonempty)
      qed
    qed
  qed
qed

lemma insert_attempts_spec: "insert_attempts [0..<3] row c = insert_spec 3 row c"
proof -
  have 1: "insert_attempts [2] row c = insert_spec (Suc 0) row c" for c
    by (rule insert_attempts_last) simp
  have 2: "insert_attempts [1, 2] row c = insert_spec (Suc (Suc 0)) row c" for c
    by (rule insert_attempts_retry [OF 1]) simp
  have 3: "insert_attempts [0, 1, 2] row c = insert_spec (Suc (Suc (Suc 0))) row c"
    by (rule insert_attempts_retry [OF 2]) simp
  have l: "insert_attempts [0..<3] row c = insert_attempts [0, 1, 2] row c"
    by (simp only: range3)
  have r: "insert_spec 3 row c = insert_spec (Suc (Suc (Suc 0))) row c"
    by (simp only: numeral_3_eq_3)
  show ?thesis unfolding l r by (rule 3)
qed

lemma commit_attempts_last:
  assumes a: "\<not> a < 4"
  shows "commit_attempts (a # as) c = commit_spec (Suc 0) c"
proof (cases "faults c")
  case Nil
  then show ?thesis
    by (simp add: commit_spec_def commit_def next_fault_def emit_def)
next
  case (Cons f fs)
  show ?thesis
  proof (cases f)
    case None
    then show ?thesis using Cons
      by (simp add: commit_spec_def commit_def next_fault_def emit_def)
  next
    case (Some e)
    then show ?thesis using Cons a
      by (cases e) (simp_all add: commit_spec_def commit_def next_fault_def emit_def)
  qed
qed

lemma commit_attempts_retry:
  assumes IH: "\<And>c. commit_attempts as c = commit_spec (Suc j) c" and a: "a < 4"
  shows "commit_attempts (a # as) c = commit_spec (Suc (Suc j)) c"
proof (cases "faults c")
  case Nil
  then show ?thesis
    by (simp add: commit_spec_def commit_def next_fault_def emit_def)
next
  case (Cons f fs)
  show ?thesis
  proof (cases f)
    case None
    then show ?thesis using Cons
      by (simp add: commit_spec_def commit_def next_fault_def emit_def)
  next
    case (Some e)
    show ?thesis
    proof (cases e)
      case IntegrityError
      then show ?thesis using Cons Some
        by (simp add: commit_spec_def commit_def next_fault_def emit_def)
    next
      case (OperationalError msg)
      show ?thesis
      proof (cases "locked msg")
        case False
        then show ?thesis using Cons Some OperationalError
          by (simp add: commit_spec_def commit_def next_fault_def emit_def)
      next
        case True
        then show ?thesis using Cons Some OperationalError a
          by (simp add: IH commit_spec_def commit_def next_fault_def emit_def sleep_def
                Let_def commit_calls_Cons retry_outcomes_nonempty)
      qed
    qed
  qed
qed

lemma commit_attempts_spec: "commit_attempts [0..<5] c = commit_spec 5 c"
proof -
  have 1: "commit_attempts [4] c = commit_spec (Suc 0) c" for c
    by (rule commit_attempts_last) simp
  have 2: "commit_attempts [3, 4] c = commit_spec (Suc (Suc 0)) c" for c
    by (rule commit_attempts_retry [OF 1]) simp
  have 3: "commit_attempts [2, 3, 4] c = commit_spec (Suc (Suc (Suc 0))) c" for c
    by (rule commit_attempts_retry [OF 2]) simp
  have 4: "commit_attempts [1, 2, 3, 4] c = commit_spec (Suc (Suc (Suc (Suc 0)))) c" for c
    by (rule commit_attempts_retry [OF 3]) simp
  have 5: "commit_attempts [0, 1, 2, 3, 4] c = commit_spec (Suc (Suc (Suc (Suc (Suc 0))))) c"
    by (rule commit_attempts_retry [OF 4]) simp
  have l: "commit_attempts [0..<5] c = commit_attempts [0, 1, 2, 3, 4] c"
    by (simp only: range5)
  have "(5::nat) = Suc (Suc (Suc (Suc (Suc 0))))" by simp
  then have r: "commit_spec 5 c = commit_spec (Suc (Suc (Suc (Suc (Suc 0))))) c"
    by (simp only:)
  show ?thesis unfolding l r by (rule 5)
qed

lemma filter_insert_calls:
  assumes "\<And>r out. \<not> p (Insert r out)" and "\<not> p (Sleep 1000)"
  shows "filter p (insert_calls row outs) = []"
  by (induction row outs rule: insert_calls.induct) (simp_all add: assms)

lemma insert_attempts_filter:
  assumes "\<And>r out. \<not> p (Insert r out)" and "\<not> p (Sleep 1000)"
  shows "filter p (trace (snd (insert_attempts [0..<3] row c))) = filter p (trace c)"
  by (simp add: insert_attempts_spec insert_spec_def Let_def filter_insert_calls [of p, OF assms])

lemma repair_verses_filter:
  assumes "\<And>r out. \<not> p (Insert r out)" and "\<not> p (Sleep 1000)"
  shows "filter p (trace (snd (repair_verses tid bid ch E vs ba ta c))) = filter p (trace c)"
proof (induction vs arbitrary: ba ta c)
  case Nil
  show ?case by simp
next
  case (Cons v vs)
  show ?case
  proof (cases "entry_verdict tid bid ch E v")
    case (Stop e)
    then show ?thesis by (simp add: repair_verses_step)
  next
    case Pass
    then show ?thesis using Cons.IH by (simp add: repair_verses_step)
  next
    case (Try row)
    obtain r c1 where ia: "insert_attempts [0..<3] row c = (r, c1)"
      by (cases "insert_attempts [0..<3] row c")
    have f1: "filter p (trace c1) = filter p (trace c)"
      using insert_attempts_filter [of p row c, OF assms] ia by simp
    show ?thesis
    proof (cases r)
      case (Inl e)
      then show ?thesis using Try ia f1 by (simp add: repair_verses_step)
    next
      case (Inr b)
      then show ?thesis using Try ia f1 Cons.IH [of _ _ c1]
        by (cases b) (simp_all add: repair_verses_step)
    qed
  qed
qed

lemma repair_chapters_filter:
  assumes "\<And>r out. \<not> p (Insert r out)" and "\<not> p (Sleep 1000)" and "\<not> p (Sleep 100)"
    and "\<And>x y z. \<not> p (Fetch x y z)"
  shows "filter p (trace (snd (repair_chapters net code api tid bid E chs ba ta c))) = filter p (trace c)"
proof (induction chs arbitrary: ba ta c)
  case Nil
  show ?case by simp
next
  case (Cons ch chs)
  let ?c0 = "emit (Fetch code api ch) c"
  show ?case
  proof (cases "chapter_entries net code api ch")
    case (Inl e)
    then show ?thesis by (simp add: repair_chapters_step assms(4))
  next
    case (Inr vs)
    obtain r c1 where rv: "repair_verses tid bid ch E vs ba ta ?c0 = (r, c1)"
      by (cases "repair_verses tid bid ch E vs ba ta ?c0")
    have f1: "filter p (trace c1) = filter p (trace c)"
      using repair_verses_filter [of p tid bid ch E vs ba ta ?c0, OF assms(1,2)] rv
      by (simp add: assms(4))
    show ?thesis
    proof (cases r)
      case (Inl e)
      then show ?thesis using Inr rv f1 by (simp add: repair_chapters_step)
    next
      case r: (Inr q)
      then show ?thesis using Inr rv f1 Cons.IH [of _ _ "sleep 100 c1"]
        by (cases q) (simp add: repair_chapters_step assms(3))
    qed
  qed
qed

lemma commit_calls_ok:
  "outs \<noteq> [] \<Longrightarrow> list_all is_lock (butlast outs) \<Longrightarrow>
   filter is_commit_ok (commit_calls outs) = (if last outs = None then [Commit None] else [])"
proof (induction outs rule: commit_calls.induct)
  case 1
  then show ?case by simp
next
  case (2 out)
  then show ?case by (cases out) simp_all
next
  case (3 out v va)
  then show ?case by (cases out) simp_all
qed

lemma delays_commit_calls:
  "delays (commit_calls outs) = replicate (length outs - 1) 2000"
  by (induction outs rule: commit_calls.induct) simp_all

lemma delays_insert_calls:
  "delays (insert_calls row outs) = replicate (length outs - 1) 1000"
  by (induction row outs rule: insert_calls.induct) simp_all

lemma commit_attempts_ok:
  assumes "commit_attempts [0..<5] c = (r, c')"
  shows "filter is_commit_ok (trace c') =
     filter is_commit_ok (trace c) @ (case r of Inl e \<Rightarrow> [] | Inr u \<Rightarrow> [Commit None])"
proof -
  define outs where "outs = retry_outcomes 5 (faults c)"
  have "(5::nat) = Suc 4" by simp
  then have ne: "outs \<noteq> []" unfolding outs_def by (simp only: retry_outcomes_nonempty not_False_eq_True)
  have lk: "list_all is_lock (butlast outs)" unfolding outs_def by (rule retry_outcomes_locks)
  have r: "r = (case last outs of None \<Rightarrow> Inr () | Some e \<Rightarrow> Inl e)"
    and t: "trace c' = trace c @ commit_calls outs"
    using assms unfolding commit_attempts_spec commit_spec_def outs_def [symmetric]
    by (simp_all add: Let_def prod_eq_iff) auto
  show ?thesis
    unfolding t r using commit_calls_ok [OF ne lk]
    by (cases "last outs") simp_all
qed

lemma verses_fatal:
  assumes "verse_num_of v = Inr verse_num" and "text_of v = Inr txt"
    and "py_not verse_num = False" and "py_not txt = False" and "hashable verse_num"
    and "(ch, key_of verse_num) \<notin> E"
    and "bind_row tid bid ch verse_num txt = Inr (Some row)"
    and "insert_attempts [0..<3] row c = (Inl e, c')"
  shows "repair_verses tid bid ch E (v # vs) ba ta c = (Inl (StoreError e), c')"
  using assms by (simp add: repair_verses_step entry_verdict_def)

lemma chapters_fatal:
  assumes "chapter_entries net code api ch = Inr vs"
    and "repair_verses tid bid ch E vs ba ta (emit (Fetch code api ch) c) = (Inl e, c')"
  shows "repair_chapters net code api tid bid E (ch # rest) ba ta c = (Inl e, c')"
  using assms by (simp add: repair_chapters_step)

lemma book_fatal_chapters:
  assumes "enters_repair tid (bid, name) c" and "map_of BOOK_NAMES name = Some api"
    and "repair_chapters net code api tid bid (get_existing_verses c tid bid)
           [1..num_chapters_of name] 0 ta (book_start tid (bid, name) c) = (Inl e, c1)"
  shows "repair_book net code tid (bid, name) ta tm c = (Inl e, c1)"
proof -
  obtain r2 c2 where cm: "commit_attempts [0..<5] c1 = (r2, c2)"
    by (cases "commit_attempts [0..<5] c1")
  have ne: "api \<noteq> []" and nc: "\<not> complete_enough (card (get_existing_verses c tid bid)) (expected_total_of name)"
    using assms(1,2) by (simp_all add: enters_repair_def)
  show ?thesis
    using repair_book_repair [OF assms(2) ne refl refl refl nc _ cm, of net code ta "Inl e" tm] assms(3)
    by simp
qed

lemma book_fatal_commit:
  assumes "enters_repair tid (bid, name) c" and "map_of BOOK_NAMES name = Some api"
    and "repair_chapters net code api tid bid (get_existing_verses c tid bid)
           [1..num_chapters_of name] 0 ta (book_start tid (bid, name) c) = (Inr p, c1)"
    and "commit_attempts [0..<5] c1 = (Inl e, c2)"
  shows "repair_book net code tid (bid, name) ta tm c = (Inl (StoreError e), c2)"
proof -
  have ne: "api \<noteq> []" and nc: "\<not> complete_enough (card (get_existing_verses c tid bid)) (expected_total_of name)"
    using assms(1,2) by (simp_all add: enters_repair_def)
  show ?thesis
    using repair_book_repair [OF assms(2) ne refl refl refl nc _ assms(4), of net code ta "Inr p" tm] assms(3)
    by simp
qed

lemma books_fatal:
  "repair_book net code tid b ta tm c = (Inl e, c') \<Longrightarrow>
   repair_books net code tid (b # rest) ta tm c = (Inl e, c')"
  by simp

lemma translation_fatal:
  assumes "map_of TRANSLATIONS tid = Some code" and "code \<noteq> []"
    and "repair_books net code tid (sort_key fst (books c)) 0 0 c = (Inl e, c')"
  shows "repair_translation net tid c = (Inl e, c')"
  using repair_translation_known [OF assms] by simp

lemma book_commits:
  assumes "repair_book net code tid (bid, name) ta tm c = (Inr r, c')"
  shows "filter is_commit_ok (trace c') =
     filter is_commit_ok (trace c) @ (if enters_repair tid (bid, name) c then [Commit None] else [])"
proof (cases "map_of BOOK_NAMES name")
  case None
  then show ?thesis
    using assms repair_book_unmapped [of name net code tid bid ta tm c]
    by (auto simp: enters_repair_def)
next
  case (Some api)
  show ?thesis
  proof (cases "api = []")
    case True
    then show ?thesis
      using assms Some repair_book_unmapped [of name net code tid bid ta tm c]
      by (auto simp: enters_repair_def)
  next
    case ne: False
    define E where "E = get_existing_verses c tid bid"
    show ?thesis
    proof (cases "complete_enough (card E) (expected_total_of name)")
      case True
      then show ?thesis
        using assms Some ne repair_book_complete [OF Some ne, of c tid bid net code ta tm]
        by (auto simp: enters_repair_def E_def)
    next
      case False
      let ?c0 = "book_start tid (bid, name) c"
      obtain r1 c1 where rc: "repair_chapters net code api tid bid E [1..num_chapters_of name] 0 ta ?c0 = (r1, c1)"
        by (cases "repair_chapters net code api tid bid E [1..num_chapters_of name] 0 ta ?c0")
      obtain r2 c2 where cm: "commit_attempts [0..<5] c1 = (r2, c2)"
        by (cases "commit_attempts [0..<5] c1")
      have unfold: "repair_book net code tid (bid, name) ta tm c =
          (case r1 of Inl e \<Rightarrow> (Inl e, c1)
           | Inr p \<Rightarrow> (case r2 of Inl e \<Rightarrow> (Inl (StoreError e), c2)
               | Inr u \<Rightarrow> (Inr (snd p, tm + max 0 (expected_total_of name - int (card E) - fst p)),
                    if fst p > 0 then emit (Print (Added (fst p))) c2 else c2)))"
        using False rc
        by (intro repair_book_repair [OF Some ne E_def refl refl _ _ cm]) (simp_all add: E_def)
      obtain p where r1: "r1 = Inr p" using assms unfold by (cases r1) simp_all
      obtain u where r2: "r2 = Inr u" using assms unfold r1 by (cases r2) simp_all
      have c': "c' = (if fst p > 0 then emit (Print (Added (fst p))) c2 else c2)"
        using assms unfold r1 r2 by simp
      have f1: "filter is_commit_ok (trace c1) = filter is_commit_ok (trace ?c0)"
        using repair_chapters_filter [of is_commit_ok net code api tid bid E "[1..num_chapters_of name]" 0 ta ?c0] rc
        by simp
      have f2: "filter is_commit_ok (trace c2) = filter is_commit_ok (trace c1) @ [Commit None]"
        using commit_attempts_ok [OF cm] r2 by simp
      have en: "enters_repair tid (bid, name) c"
        using Some ne False by (simp add: enters_repair_def E_def)
      show ?thesis unfolding c' using f1 f2 en by simp
    qed
  qed
qed

subsection \<open>Expected counts and requests\<close>

lemma verse_counts_positive: "map_of VERSE_COUNTS name = Some e \<Longrightarrow> 0 < e"
proof -
  assume "map_of VERSE_COUNTS name = Some e"
  then have "(name, e) \<in> set VERSE_COUNTS" by (rule map_of_SomeD)
  moreover have "list_all (\<lambda>p. 0 < snd p) VERSE_COUNTS" by (simp add: VERSE_COUNTS_def)
  ultimately show ?thesis by (auto simp: list_all_iff)
qed

lemma chapters_positive: "map_of CHAPTERS name = Some n \<Longrightarrow> 1 \<le> n"
proof -
  assume "map_of CHAPTERS name = Some n"
  then have "(name, n) \<in> set CHAPTERS" by (rule map_of_SomeD)
  moreover have "list_all (\<lambda>p. 1 \<le> snd p) CHAPTERS" by (simp add: CHAPTERS_def)
  ultimately show ?thesis by (auto simp: list_all_iff)
qed

lemma book_names_nonempty: "map_of BOOK_NAMES name = Some api \<Longrightarrow> api \<noteq> []"
proof -
  assume "map_of BOOK_NAMES name = Some api"
  then have "(name, api) \<in> set BOOK_NAMES" by (rule map_of_SomeD)
  moreover have "list_all (\<lambda>p. snd p \<noteq> []) BOOK_NAMES" by (simp add: BOOK_NAMES_def)
  ultimately show ?thesis by (auto simp: list_all_iff)
qed

lemma counted_book_known:
  assumes "map_of VERSE_COUNTS name = Some e"
  shows "\<exists>api n. map_of BOOK_NAMES name = Some api \<and> api \<noteq> [] \<and>
           map_of CHAPTERS name = Some n \<and> 1 \<le> n"
proof -
  have "map_of BOOK_NAMES name \<noteq> None"
    using assms map_of_None_keys [OF table_keys(1), of name] by simp
  then obtain api where a: "map_of BOOK_NAMES name = Some api" by blast
  have "map_of CHAPTERS name \<noteq> None"
    using a map_of_None_keys [OF table_keys(2), of name] by simp
  then obtain n where n: "map_of CHAPTERS name = Some n" by blast
  show ?thesis using a n book_names_nonempty [OF a] chapters_positive [OF n] by blast
qed

lemma complete_enough_ratio:
  "0 < e \<Longrightarrow> complete_enough n e \<longleftrightarrow> 0.95 \<le> real n / real_of_int e"
proof -
  assume e: "0 < e"
  have "complete_enough n e \<longleftrightarrow> 19 * real_of_int e \<le> 20 * real n"
    unfolding complete_enough_def
    by (metis (mono_tags, opaque_lifting) of_int_le_iff of_int_mult of_int_numeral of_int_of_nat_eq)
  also have "\<dots> \<longleftrightarrow> 0.95 \<le> real n / real_of_int e"
    using e by (simp add: field_simps)
  finally show ?thesis .
qed

lemma filter_commit_calls:
  assumes "\<And>out. \<not> p (Commit out)" and "\<not> p (Print CommitRetry)" and "\<not> p (Sleep 2000)"
  shows "filter p (commit_calls outs) = []"
  by (induction outs rule: commit_calls.induct) (simp_all add: assms)

lemma commit_attempts_filter:
  assumes "\<And>out. \<not> p (Commit out)" and "\<not> p (Print CommitRetry)" and "\<not> p (Sleep 2000)"
  shows "filter p (trace (snd (commit_attempts [0..<5] c))) = filter p (trace c)"
  by (simp add: commit_attempts_spec commit_spec_def Let_def filter_commit_calls [of p, OF assms])

lemma repair_chapters_fetches:
  assumes "repair_chapters net code api tid bid E chs ba ta c = (r, c')"
  shows "\<exists>k\<le>length chs.
           filter is_fetch (trace c') = filter is_fetch (trace c) @ map (Fetch code api) (take k chs) \<and>
           (chs \<noteq> [] \<longrightarrow> 0 < k) \<and> ((\<exists>p. r = Inr p) \<longrightarrow> k = length chs)"
  using assms
proof (induction chs arbitrary: ba ta c)
  case Nil
  then show ?case by auto
next
  case (Cons ch chs)
  let ?c0 = "emit (Fetch code api ch) c"
  show ?case
  proof (cases "chapter_entries net code api ch")
    case (Inl e)
    then have "r = Inl e" and "c' = ?c0" using Cons.prems by (simp_all add: repair_chapters_step)
    then show ?thesis by (intro exI [of _ 1]) simp
  next
    case (Inr vs)
    obtain r1 c1 where rv: "repair_verses tid bid ch E vs ba ta ?c0 = (r1, c1)"
      by (cases "repair_verses tid bid ch E vs ba ta ?c0")
    have f1: "filter is_fetch (trace c1) = filter is_fetch (trace c) @ [Fetch code api ch]"
      using repair_verses_filter [of is_fetch tid bid ch E vs ba ta ?c0] rv
      by simp
    show ?thesis
    proof (cases r1)
      case (Inl e)
      then have "r = Inl e" and "c' = c1"
        using Cons.prems Inr rv by (simp_all add: repair_chapters_step)
      then show ?thesis using f1 by (intro exI [of _ 1]) simp
    next
      case r1: (Inr q)
      obtain ba1 ta1 where q: "q = (ba1, ta1)" by (cases q)
      have run: "repair_chapters net code api tid bid E chs ba1 ta1 (sleep 100 c1) = (r, c')"
        using Cons.prems Inr rv r1 q by (simp add: repair_chapters_step)
      obtain k where k: "k \<le> length chs"
        and t: "filter is_fetch (trace c') =
                  filter is_fetch (trace (sleep 100 c1)) @ map (Fetch code api) (take k chs)"
        and full: "(\<exists>p. r = Inr p) \<longrightarrow> k = length chs"
        using Cons.IH [OF run] by blast
      show ?thesis
        using k t full f1 by (intro exI [of _ "Suc k"]) simp
    qed
  qed
qed

subsection \<open>Requests that fail\<close>

lemma failed_entries: "net code api ch = Failed f \<Longrightarrow> chapter_entries net code api ch = Inr []"
  by (simp add: chapter_entries_def download_chapter_def Let_def)

lemma no_verse_fetch:
  "filter is_verse_fetch (trace (snd (repair_translation net tid c))) =
   filter is_verse_fetch (trace c)"
proof -
  obtain es where t: "trace (snd (repair_translation net tid c)) = trace c @ es"
    and q: "list_all (\<lambda>e. \<not> is_verse_fetch e) es"
    using repair_translation_grows [of tid c net] unfolding grows_def by blast
  have "filter is_verse_fetch es = []" using q by (simp add: list_all_iff)
  then show ?thesis unfolding t by simp
qed

lemma failed_pass_simps [simp]:
  "failed_pass code api [] c = c"
  "failed_pass code api (ch # chs) c =
     failed_pass code api chs (sleep 100 (emit (Fetch code api ch) c))"
  by (simp_all add: failed_pass_def)

lemma failed_pass_fields:
  "books (failed_pass code api chs c) = books c"
  "verses (failed_pass code api chs c) = verses c"
  "verse_affinity (failed_pass code api chs c) = verse_affinity c"
  "faults (failed_pass code api chs c) = faults c"
  "trace (failed_pass code api chs c) =
     trace c @ concat (map (\<lambda>ch. [Fetch code api ch, Sleep 100]) chs)"
  by (induction chs arbitrary: c) simp_all

lemma failed_pass_fetches:
  "filter is_fetch (trace (failed_pass code api chs c)) =
   filter is_fetch (trace c) @ map (Fetch code api) chs"
  by (induction chs arbitrary: c) simp_all

lemma failed_chapters:
  assumes "list_all (\<lambda>ch. \<exists>f. net code api ch = Failed f) chs"
  shows "repair_chapters net code api tid bid E chs ba ta c =
           (Inr (ba, ta), failed_pass code api chs c)"
  using assms
proof (induction chs arbitrary: c)
  case Nil
  show ?case by simp
next
  case (Cons ch chs)
  from Cons.prems obtain f where f: "net code api ch = Failed f" by auto
  from Cons.prems have rest: "list_all (\<lambda>ch. \<exists>f. net code api ch = Failed f) chs" by simp
  have ce: "chapter_entries net code api ch = Inr []"
    using f by (rule failed_entries [where net = net and code = code and api = api and ch = ch])
  show ?case
    using Cons.IH [OF rest] by (simp add: repair_chapters_step ce)
qed

lemma failed_book:
  assumes "enters_repair tid (bid, name) c" and "map_of BOOK_NAMES name = Some api"
    and "list_all (\<lambda>ch. \<exists>f. net code api ch = Failed f) [1..num_chapters_of name]"
    and "commit_attempts [0..<5]
           (failed_pass code api [1..num_chapters_of name] (book_start tid (bid, name) c)) = (r2, c2)"
  shows "repair_book net code tid (bid, name) ta tm c =
     (case r2 of
        Inl e \<Rightarrow> (Inl (StoreError e), c2)
      | Inr u \<Rightarrow>
          (Inr (ta, tm + max 0 (expected_total_of name - int (card (get_existing_verses c tid bid)))),
           c2))"
proof -
  have ne: "api \<noteq> []"
    and nc: "\<not> complete_enough (card (get_existing_verses c tid bid)) (expected_total_of name)"
    using assms(1,2) by (simp_all add: enters_repair_def)
  have rc: "repair_chapters net code api tid bid (get_existing_verses c tid bid)
      [1..num_chapters_of name] 0 ta (book_start tid (bid, name) c) =
      (Inr (0, ta), failed_pass code api [1..num_chapters_of name] (book_start tid (bid, name) c))"
    using assms(3) by (rule failed_chapters)
  have "repair_book net code tid (bid, name) ta tm c =
     (case (Inr (0, ta) :: error + int \<times> int) of
        Inl e \<Rightarrow> (Inl e, failed_pass code api [1..num_chapters_of name] (book_start tid (bid, name) c))
      | Inr p \<Rightarrow>
          (case r2 of
             Inl e \<Rightarrow> (Inl (StoreError e), c2)
           | Inr u \<Rightarrow>
               (Inr (snd p, tm + max 0 (expected_total_of name
                                         - int (card (get_existing_verses c tid bid)) - fst p)),
                if fst p > 0 then emit (Print (Added (fst p))) c2 else c2)))"
    using rc by (intro repair_book_repair [OF assms(2) ne refl refl refl nc _ assms(4)]) simp
  then show ?thesis by (cases r2) simp_all
qed

lemma chapter_requests_simps [simp]:
  "chapter_requests code tid [] c = []"
  "chapter_requests code tid (b # bs) c =
     (if enters_repair tid b c
      then (case map_of BOOK_NAMES (snd b) of
              None \<Rightarrow> []
            | Some api \<Rightarrow> map (Fetch code api) [1..num_chapters_of (snd b)])
      else []) @ chapter_requests code tid bs c"
  by (simp_all add: chapter_requests_def)

lemma chapter_requests_same:
  assumes "verses c' = verses c" and "verse_affinity c' = verse_affinity c"
  shows "chapter_requests code tid bs c' = chapter_requests code tid bs c"
proof -
  have "enters_repair tid b c' = enters_repair tid b c" for b
    unfolding enters_repair_def same_store_existing [OF assms] by (rule refl)
  then show ?thesis by (simp add: chapter_requests_def)
qed

text \<open>
  One book under a provider that fails for every chapter: the book is passed over, or all
  its chapters are requested, nothing is written, and the commit follows.
\<close>

lemma all_failed_book:
  assumes "\<forall>code api ch. \<exists>f. net code api ch = Failed f"
    and "repair_book net code tid b ta tm c = (r, c')"
  shows "verses c' = verses c \<and> verse_affinity c' = verse_affinity c \<and>
         (faults c = [] \<longrightarrow> (\<exists>tm'. r = Inr (ta, tm')) \<and> faults c' = []) \<and>
         ((\<exists>p. r = Inr p) \<longrightarrow>
            filter is_fetch (trace c') = filter is_fetch (trace c) @ chapter_requests code tid [b] c)"
proof -
  obtain bid name where b: "b = (bid, name)" by (cases b)
  show ?thesis
  proof (cases "enters_repair tid (bid, name) c")
    case False
    have "\<exists>m. repair_book net code tid (bid, name) ta tm c = (Inr (ta, tm), emit (Print m) c)"
    proof (cases "map_of BOOK_NAMES name")
      case None
      then show ?thesis using repair_book_unmapped [of name net code tid bid ta tm c] by blast
    next
      case (Some api)
      show ?thesis
      proof (cases "api = []")
        case True
        then show ?thesis
          using Some repair_book_unmapped [of name net code tid bid ta tm c] by blast
      next
        case ne: False
        then have "complete_enough (card (get_existing_verses c tid bid)) (expected_total_of name)"
          using False Some by (simp add: enters_repair_def)
        then show ?thesis
          using repair_book_complete [OF Some ne, of c tid bid net code ta tm] by blast
      qed
    qed
    then obtain m where "repair_book net code tid (bid, name) ta tm c = (Inr (ta, tm), emit (Print m) c)"
      by blast
    with assms(2) b have "r = Inr (ta, tm)" and "c' = emit (Print m) c" by simp_all
    then show ?thesis using False b by simp
  next
    case True
    then obtain api where api: "map_of BOOK_NAMES name = Some api"
      by (auto simp: enters_repair_def split: option.splits)
    let ?chs = "[1..num_chapters_of name]"
    let ?c1 = "failed_pass code api ?chs (book_start tid (bid, name) c)"
    have fl: "list_all (\<lambda>ch. \<exists>f. net code api ch = Failed f) ?chs"
      using assms(1) by (simp add: list_all_iff)
    obtain r2 c2 where cm: "commit_attempts [0..<5] ?c1 = (r2, c2)"
      by (cases "commit_attempts [0..<5] ?c1")
    have run: "repair_book net code tid (bid, name) ta tm c =
       (case r2 of
          Inl e \<Rightarrow> (Inl (StoreError e), c2)
        | Inr u \<Rightarrow>
            (Inr (ta, tm + max 0 (expected_total_of name - int (card (get_existing_verses c tid bid)))),
             c2))"
      using True api fl cm by (rule failed_book)
    have c': "c' = c2" using assms(2) b run by (cases r2) simp_all
    have s2: "same_store ?c1 c2" using commit_attempts_same_store [of ?c1 "[0..<5]"] cm by simp
    have g2: "grows tid ?c1 c2" using commit_attempts_grows [of tid ?c1 "[0..<5]"] cm by simp
    have v: "verses c2 = verses c"
      using s2 by (simp add: same_store_def failed_pass_fields)
    have a: "verse_affinity c2 = verse_affinity c"
      using g2 by (simp add: grows_def failed_pass_fields)
    have f: "filter is_fetch (trace c2) = filter is_fetch (trace c) @ map (Fetch code api) ?chs"
      using commit_attempts_filter [of is_fetch ?c1] cm by (simp add: failed_pass_fetches)
    have calm: "(\<exists>tm'. r = Inr (ta, tm')) \<and> faults c2 = []" if "faults c = []"
    proof -
      have "faults ?c1 = []" using that by (simp add: failed_pass_fields)
      then obtain c2' where "commit_attempts [0..<5] ?c1 = (Inr (), c2')" and "faults c2' = []"
        using commit_attempts_calm [of ?c1 0 "[1, 2, 3, 4]"] by (auto simp: range5)
      with cm have "r2 = Inr ()" and "faults c2 = []" by simp_all
      then show ?thesis using assms(2) b run by auto
    qed
    show ?thesis
      unfolding c' using v a f calm True api b by simp
  qed
qed

lemma all_failed_books:
  assumes "\<forall>code api ch. \<exists>f. net code api ch = Failed f"
    and "repair_books net code tid bs ta tm c = (r, c')"
  shows "verses c' = verses c \<and> verse_affinity c' = verse_affinity c \<and>
         (faults c = [] \<longrightarrow> (\<exists>tm'. r = Inr (ta, tm')) \<and> faults c' = []) \<and>
         ((\<exists>p. r = Inr p) \<longrightarrow>
            filter is_fetch (trace c') = filter is_fetch (trace c) @ chapter_requests code tid bs c)"
  using assms(2)
proof (induction bs arbitrary: ta tm c)
  case Nil
  then show ?case by auto
next
  case (Cons b bs)
  obtain r1 c1 where rb: "repair_book net code tid b ta tm c = (r1, c1)"
    by (cases "repair_book net code tid b ta tm c")
  note B = all_failed_book [OF assms(1) rb]
  have v1: "verses c1 = verses c" and a1: "verse_affinity c1 = verse_affinity c"
    using B by simp_all
  have calm1: "(\<exists>tm'. r1 = Inr (ta, tm')) \<and> faults c1 = []" if "faults c = []"
    using B that by blast
  show ?case
  proof (cases r1)
    case (Inl e)
    then have res: "r = Inl e" "c' = c1" using Cons.prems rb by simp_all
    have "faults c \<noteq> []" using calm1 Inl by auto
    then show ?thesis using res v1 a1 by simp
  next
    case (Inr p)
    obtain ta1 tm1 where p: "p = (ta1, tm1)" by (cases p)
    have run: "repair_books net code tid bs ta1 tm1 c1 = (r, c')"
      using Cons.prems rb Inr p by simp
    note IH = Cons.IH [OF run]
    have f1: "filter is_fetch (trace c1) =
        filter is_fetch (trace c) @ chapter_requests code tid [b] c"
      using B Inr by blast
    have same: "chapter_requests code tid bs c1 = chapter_requests code tid bs c"
      using v1 a1 by (rule chapter_requests_same)
    have V: "verses c' = verses c" using IH v1 by simp
    have A: "verse_affinity c' = verse_affinity c" using IH a1 by simp
    have C: "(\<exists>tm'. r = Inr (ta, tm')) \<and> faults c' = []" if calm: "faults c = []"
    proof -
      from calm1 [OF calm] Inr p have t: "ta1 = ta" and f: "faults c1 = []" by simp_all
      from IH f have "(\<exists>tm'. r = Inr (ta1, tm')) \<and> faults c' = []" by blast
      then show ?thesis unfolding t .
    qed
    have F: "filter is_fetch (trace c') =
        filter is_fetch (trace c) @ chapter_requests code tid (b # bs) c" if "\<exists>p. r = Inr p"
    proof -
      from IH that have "filter is_fetch (trace c') =
          filter is_fetch (trace c1) @ chapter_requests code tid bs c1" by blast
      then show ?thesis unfolding f1 same by simp
    qed
    show ?thesis using V A C F by blast
  qed
qed

lemma all_failed_run:
  assumes "\<forall>code api ch. \<exists>f. net code api ch = Failed f"
  shows "verses (snd (repair_translation net tid c)) = verses c"
    and "faults c = [] \<Longrightarrow> fst (repair_translation net tid c) = Inr ()"
    and "map_of TRANSLATIONS tid = Some code \<Longrightarrow> code \<noteq> [] \<Longrightarrow>
         fst (repair_translation net tid c) = Inr () \<Longrightarrow>
         filter is_fetch (trace (snd (repair_translation net tid c))) =
           filter is_fetch (trace c) @ chapter_requests code tid (sort_key fst (books c)) c"
proof -
  have AB: "verses (snd (repair_translation net tid c)) = verses c \<and>
      (faults c = [] \<longrightarrow> fst (repair_translation net tid c) = Inr ())"
  proof (cases "map_of TRANSLATIONS tid = None \<or> map_of TRANSLATIONS tid = Some []")
    case True
    show ?thesis unfolding repair_translation_unknown [OF True] by simp
  next
    case False
    then obtain code' where code: "map_of TRANSLATIONS tid = Some code'" and ne: "code' \<noteq> []"
      by auto
    let ?bs = "sort_key fst (books c)"
    obtain r c1 where rb: "repair_books net code' tid ?bs 0 0 c = (r, c1)"
      by (cases "repair_books net code' tid ?bs 0 0 c")
    note np = all_failed_books [OF assms rb]
    have run: "repair_translation net tid c =
       (case r of Inl e \<Rightarrow> (Inl e, c1)
        | Inr p \<Rightarrow> (Inr (), emit (Print (Summary tid (fst p) (snd p))) c1))"
      using code ne rb by (rule repair_translation_known)
    have A: "verses (snd (repair_translation net tid c)) = verses c"
      unfolding run using np by (cases r) simp_all
    have B: "fst (repair_translation net tid c) = Inr ()" if calm: "faults c = []"
    proof -
      from np calm obtain tm' where "r = Inr (0, tm')" by blast
      then show ?thesis unfolding run by simp
    qed
    from A B show ?thesis by blast
  qed
  from AB show "verses (snd (repair_translation net tid c)) = verses c" by blast
  from AB show "faults c = [] \<Longrightarrow> fst (repair_translation net tid c) = Inr ()" by blast
  show "filter is_fetch (trace (snd (repair_translation net tid c))) =
           filter is_fetch (trace c) @ chapter_requests code tid (sort_key fst (books c)) c"
    if code: "map_of TRANSLATIONS tid = Some code" and ne: "code \<noteq> []"
      and ok: "fst (repair_translation net tid c) = Inr ()"
  proof -
    let ?bs = "sort_key fst (books c)"
    obtain r c1 where rb: "repair_books net code tid ?bs 0 0 c = (r, c1)"
      by (cases "repair_books net code tid ?bs 0 0 c")
    note np = all_failed_books [OF assms rb]
    have run: "repair_translation net tid c =
       (case r of Inl e \<Rightarrow> (Inl e, c1)
        | Inr p \<Rightarrow> (Inr (), emit (Print (Summary tid (fst p) (snd p))) c1))"
      using code ne rb by (rule repair_translation_known)
    obtain p where r: "r = Inr p" using ok run by (cases r) simp_all
    have "filter is_fetch (trace c1) = filter is_fetch (trace c) @ chapter_requests code tid ?bs c"
      using np r by blast
    then show ?thesis unfolding run r by simp
  qed
qed

subsection \<open>The counters\<close>

lemma insert_attempts_count:
  assumes "insert_attempts [0..<3] row c = (Inr b, c')"
  shows "int (length (verses c')) = int (length (verses c)) + (if b then 1 else 0)"
proof -
  define outs where "outs = retry_outcomes 3 (faults c)"
  have r: "(case last outs of None \<Rightarrow> Inr True | Some IntegrityError \<Rightarrow> Inr False
            | Some (OperationalError msg) \<Rightarrow> Inl (OperationalError msg)) = (Inr b :: db_error + bool)"
    and v: "verses c' = (if last outs = None then verses c @ [row] else verses c)"
    using assms unfolding insert_attempts_spec insert_spec_def outs_def [symmetric]
    by (auto simp: Let_def)
  show ?thesis
  proof (cases "last outs")
    case None
    then show ?thesis using r v by auto
  next
    case (Some e)
    then show ?thesis using r v by (cases e) auto
  qed
qed

lemma repair_verses_count:
  assumes "repair_verses tid bid ch E vs ba ta c = (Inr (ba', ta'), c')"
  shows "ba' = ba + (int (length (verses c')) - int (length (verses c))) \<and>
         ta' = ta + (int (length (verses c')) - int (length (verses c)))"
  using assms
proof (induction vs arbitrary: ba ta c)
  case Nil
  then show ?case by simp
next
  case (Cons v vs)
  show ?case
  proof (cases "entry_verdict tid bid ch E v")
    case (Stop e)
    then show ?thesis using Cons.prems by (simp add: repair_verses_step)
  next
    case Pass
    then have "repair_verses tid bid ch E vs ba ta c = (Inr (ba', ta'), c')"
      using Cons.prems by (simp add: repair_verses_step)
    then show ?thesis by (rule Cons.IH)
  next
    case (Try row)
    obtain r c1 where ia: "insert_attempts [0..<3] row c = (r, c1)"
      by (cases "insert_attempts [0..<3] row c")
    show ?thesis
    proof (cases r)
      case (Inl e)
      then show ?thesis using Cons.prems Try ia by (simp add: repair_verses_step)
    next
      case (Inr b)
      note cnt = insert_attempts_count [OF ia [unfolded Inr]]
      show ?thesis
      proof (cases b)
        case True
        then have "repair_verses tid bid ch E vs (ba + 1) (ta + 1) c1 = (Inr (ba', ta'), c')"
          using Cons.prems Try ia Inr by (simp add: repair_verses_step)
        from Cons.IH [OF this] cnt True show ?thesis by simp
      next
        case b: False
        then have "repair_verses tid bid ch E vs ba ta c1 = (Inr (ba', ta'), c')"
          using Cons.prems Try ia Inr by (simp add: repair_verses_step)
        from Cons.IH [OF this] cnt b show ?thesis by simp
      qed
    qed
  qed
qed

lemma repair_chapters_count:
  assumes "repair_chapters net code api tid bid E chs ba ta c = (Inr (ba', ta'), c')"
  shows "ba' = ba + (int (length (verses c')) - int (length (verses c))) \<and>
         ta' = ta + (int (length (verses c')) - int (length (verses c)))"
  using assms
proof (induction chs arbitrary: ba ta c)
  case Nil
  then show ?case by simp
next
  case (Cons ch chs)
  let ?c0 = "emit (Fetch code api ch) c"
  show ?case
  proof (cases "chapter_entries net code api ch")
    case (Inl e)
    then show ?thesis using Cons.prems by (simp add: repair_chapters_step)
  next
    case (Inr vs)
    obtain r c1 where rv: "repair_verses tid bid ch E vs ba ta ?c0 = (r, c1)"
      by (cases "repair_verses tid bid ch E vs ba ta ?c0")
    show ?thesis
    proof (cases r)
      case (Inl e)
      then show ?thesis using Cons.prems Inr rv by (simp add: repair_chapters_step)
    next
      case r: (Inr q)
      obtain ba1 ta1 where q: "q = (ba1, ta1)" by (cases q)
      have run: "repair_chapters net code api tid bid E chs ba1 ta1 (sleep 100 c1) = (Inr (ba', ta'), c')"
        using Cons.prems Inr rv r q by (simp add: repair_chapters_step)
      from repair_verses_count [OF rv [unfolded r q]] Cons.IH [OF run]
      show ?thesis by simp
    qed
  qed
qed

lemma book_totals:
  assumes "repair_book net code tid b ta tm c = (Inr (ta', tm'), c')"
  shows "ta' = ta + (int (length (verses c')) - int (length (verses c))) \<and>
         tm' = tm + (if enters_repair tid b c
                     then max 0 (expected_total_of (snd b)
                                  - int (card (get_existing_verses c tid (fst b)))
                                  - (int (length (verses c')) - int (length (verses c))))
                     else 0) \<and>
         (\<not> enters_repair tid b c \<longrightarrow> verses c' = verses c)"
proof -
  obtain bid name where b: "b = (bid, name)" by (cases b)
  show ?thesis
  proof (cases "enters_repair tid b c")
    case False
    have "ta' = ta \<and> tm' = tm \<and> verses c' = verses c"
    proof (cases "map_of BOOK_NAMES name")
      case None
      then show ?thesis
        using assms b repair_book_unmapped [of name net code tid bid ta tm c] by auto
    next
      case (Some api)
      show ?thesis
      proof (cases "api = []")
        case True
        then show ?thesis
          using assms b Some repair_book_unmapped [of name net code tid bid ta tm c] by auto
      next
        case ne: False
        then have "complete_enough (card (get_existing_verses c tid bid)) (expected_total_of name)"
          using False Some b by (simp add: enters_repair_def)
        then show ?thesis
          using assms b repair_book_complete [OF Some ne, of c tid bid net code ta tm] by auto
      qed
    qed
    then show ?thesis using False by simp
  next
    case True
    then obtain api where api: "map_of BOOK_NAMES name = Some api" and ne: "api \<noteq> []"
      and nc: "\<not> complete_enough (card (get_existing_verses c tid bid)) (expected_total_of name)"
      using b by (auto simp: enters_repair_def split: option.splits)
    define E where "E = get_existing_verses c tid bid"
    let ?c0 = "book_start tid (bid, name) c"
    obtain r1 c1 where rc: "repair_chapters net code api tid bid E [1..num_chapters_of name] 0 ta ?c0 = (r1, c1)"
      by (cases "repair_chapters net code api tid bid E [1..num_chapters_of name] 0 ta ?c0")
    obtain r2 c2 where cm: "commit_attempts [0..<5] c1 = (r2, c2)"
      by (cases "commit_attempts [0..<5] c1")
    have unfold: "repair_book net code tid (bid, name) ta tm c =
          (case r1 of Inl e \<Rightarrow> (Inl e, c1)
           | Inr p \<Rightarrow> (case r2 of Inl e \<Rightarrow> (Inl (StoreError e), c2)
               | Inr u \<Rightarrow> (Inr (snd p, tm + max 0 (expected_total_of name - int (card E) - fst p)),
                    if fst p > 0 then emit (Print (Added (fst p))) c2 else c2)))"
      using nc rc
      by (intro repair_book_repair [OF api ne E_def refl refl _ _ cm]) (simp_all add: E_def)
    have run: "repair_book net code tid (bid, name) ta tm c = (Inr (ta', tm'), c')"
      using assms b by simp
    obtain p where r1: "r1 = Inr p" using run unfold by (cases r1) simp_all
    obtain u where r2: "r2 = Inr u" using run unfold r1 by (cases r2) simp_all
    obtain ba1 ta1 where p: "p = (ba1, ta1)" by (cases p)
    have res: "ta' = ta1" "tm' = tm + max 0 (expected_total_of name - int (card E) - ba1)"
      "verses c' = verses c2"
      using run unfold r1 r2 p by (auto split: if_splits)
    have "same_store c1 c2" using commit_attempts_same_store [of c1 "[0..<5]"] cm by simp
    then have v2: "verses c2 = verses c1" by (simp add: same_store_def)
    have cnt: "ba1 = 0 + (int (length (verses c1)) - int (length (verses ?c0))) \<and>
               ta1 = ta + (int (length (verses c1)) - int (length (verses ?c0)))"
      using repair_chapters_count [OF rc [unfolded r1 p]] .
    show ?thesis using True res v2 cnt b by (simp add: E_def)
  qed
qed

lemma books_totals:
  assumes "repair_books net code tid bs ta tm c = (Inr (ta', tm'), c')"
  shows "ta' = ta + (\<Sum>(expected, existing, added) \<leftarrow> document_stats net code tid bs ta tm c. added) \<and>
         tm' = tm + (\<Sum>(expected, existing, added) \<leftarrow> document_stats net code tid bs ta tm c.
                        max 0 (expected - existing - added))"
  using assms
proof (induction bs arbitrary: ta tm c)
  case Nil
  then show ?case by simp
next
  case (Cons b bs)
  obtain r c1 where rb: "repair_book net code tid b ta tm c = (r, c1)"
    by (cases "repair_book net code tid b ta tm c")
  show ?case
  proof (cases r)
    case (Inl e)
    then show ?thesis using Cons.prems rb by simp
  next
    case (Inr q)
    obtain ta1 tm1 where q: "q = (ta1, tm1)" by (cases q)
    have run: "repair_books net code tid bs ta1 tm1 c1 = (Inr (ta', tm'), c')"
      using Cons.prems rb Inr q by simp
    note bt = book_totals [OF rb [unfolded Inr q]]
    note IH = Cons.IH [OF run]
    show ?thesis
    proof (cases "enters_repair tid b c")
      case True
      then show ?thesis using rb Inr q bt IH by simp
    next
      case False
      then show ?thesis using rb Inr q bt IH by simp
    qed
  qed
qed

lemma missing_nonneg:
  "0 \<le> (\<Sum>(expected, existing, added) \<leftarrow> (stats :: (int \<times> int \<times> int) list).
            max 0 (expected - existing - added))"
  by (induction stats) auto

subsection \<open>The store only grows\<close>

text \<open>
  C3. Whatever the provider and the store answer, and whether or not the run ends in an
  error, the table of verses after \<open>repair_translation\<close> is the table before it with
  rows appended: no row that was present is changed, moved or removed, and the table of
  books is the same. In particular the rows after the run are a superset of the rows
  before it.
\<close>

theorem repair_translation_additive:
  "(\<exists>new. verses (snd (repair_translation net tid c)) = verses c @ new) \<and>
   set (verses c) \<subseteq> set (verses (snd (repair_translation net tid c))) \<and>
   books (snd (repair_translation net tid c)) = books c"
  using repair_translation_grows [of tid c net] unfolding grows_def by auto

theorem repair_translation_additive_witness:
  "(\<exists>new. verses (snd (repair_translation example_net ''KJV'' example_conn)) =
          verses example_conn @ new) \<and>
   set (verses example_conn) \<subseteq> set (verses (snd (repair_translation example_net ''KJV'' example_conn))) \<and>
   books (snd (repair_translation example_net ''KJV'' example_conn)) = books example_conn"
  by (rule repair_translation_additive)

subsection \<open>Repairing twice\<close>

text \<open>
  C1. The store holds the book Obadiah and no verse of it, and the provider sends the
  verse numbers of its chapter as strings. The first run inserts both verses and returns
  without error. The store keeps the numbers as integers, so the keys the second run
  reads are \<open>(1, 1)\<close> and \<open>(1, 2)\<close>, while the keys it looks up are \<open>(1, '1')\<close>
  and \<open>(1, '2')\<close>: none is found, the table has no uniqueness constraint to reject
  the inserts, and the second run adds both verses once more and reports two verses
  added.
\<close>

theorem repair_twice_duplicates:
  "fst (repair_translation quoted_net ''KJV'' empty_obadiah_conn) = Inr () \<and>
   verses (snd (repair_translation quoted_net ''KJV'' empty_obadiah_conn)) =
     [\<lparr>row_translation_id = ''KJV'', row_book_id = 31, row_chapter = 1,
        row_verse = SqlText ''1'', row_text = SqlText ''a''\<rparr>,
      \<lparr>row_translation_id = ''KJV'', row_book_id = 31, row_chapter = 1,
        row_verse = SqlText ''2'', row_text = SqlText ''b''\<rparr>] \<and>
   get_existing_verses (snd (repair_translation quoted_net ''KJV'' empty_obadiah_conn)) ''KJV'' 31 =
     {(1, JInt 1), (1, JInt 2)} \<and>
   fst (repair_translation quoted_net ''KJV''
          (snd (repair_translation quoted_net ''KJV'' empty_obadiah_conn))) = Inr () \<and>
   verses (snd (repair_translation quoted_net ''KJV''
                  (snd (repair_translation quoted_net ''KJV'' empty_obadiah_conn)))) =
     [\<lparr>row_translation_id = ''KJV'', row_book_id = 31, row_chapter = 1,
        row_verse = SqlText ''1'', row_text = SqlText ''a''\<rparr>,
      \<lparr>row_translation_id = ''KJV'', row_book_id = 31, row_chapter = 1,
        row_verse = SqlText ''2'', row_text = SqlText ''b''\<rparr>,
      \<lparr>row_translation_id = ''KJV'', row_book_id = 31, row_chapter = 1,
        row_verse = SqlText ''1'', row_text = SqlText ''a''\<rparr>,
      \<lparr>row_translation_id = ''KJV'', row_book_id = 31, row_chapter = 1,
        row_verse = SqlText ''2'', row_text = SqlText ''b''\<rparr>] \<and>
   last (trace (snd (repair_translation quoted_net ''KJV''
                       (snd (repair_translation quoted_net ''KJV'' empty_obadiah_conn))))) =
     Print (Summary ''KJV'' 2 17)"
  by code_simp

subsection \<open>What is written\<close>




subsection \<open>A key inserted by another writer\<close>

text \<open>
  C2. The store already holds Obadiah 1:1, inserted by another writer after the set of
  existing keys was read, so that set (here empty) does not contain the key. The repair
  then inserts the verse; the table as the build scripts declare it has no uniqueness
  constraint, the insert succeeds, the verse is counted as added and the table holds the
  key twice. Only when the store does raise an integrity error is the insert given up
  without an error and without a count, as the second equation shows.
\<close>

theorem duplicate_key_not_rejected:
  "repair_verses ''KJV'' 31 1 {}
     [JObject [(''verse'', JInt 1), (''text'', JStr ''a'')]] 0 0 racing_conn =
   (Inr (1, 1),
    racing_conn
      \<lparr>verses :=
         [\<lparr>row_translation_id = ''KJV'', row_book_id = 31, row_chapter = 1,
            row_verse = SqlInteger 1, row_text = SqlText ''a''\<rparr>,
          \<lparr>row_translation_id = ''KJV'', row_book_id = 31, row_chapter = 1,
            row_verse = SqlInteger 1, row_text = SqlText ''a''\<rparr>],
       trace :=
         [Insert \<lparr>row_translation_id = ''KJV'', row_book_id = 31, row_chapter = 1,
                  row_verse = SqlInteger 1, row_text = SqlText ''a''\<rparr> None]\<rparr>) \<and>
   repair_verses ''KJV'' 31 1 {}
     [JObject [(''verse'', JInt 1), (''text'', JStr ''a'')]] 0 0
     (racing_conn\<lparr>faults := [Some IntegrityError]\<rparr>) =
   (Inr (0, 0),
    racing_conn
      \<lparr>trace :=
         [Insert \<lparr>row_translation_id = ''KJV'', row_book_id = 31, row_chapter = 1,
                  row_verse = SqlInteger 1, row_text = SqlText ''a''\<rparr> (Some IntegrityError)]\<rparr>)"
  by (simp add: racing_conn_def repair_verses_step entry_verdict_def verse_num_of_def
        text_of_def bind_row_def range3 execute_insert_def next_fault_def emit_def)

subsection \<open>A book the tables do not know\<close>

text \<open>
  C5, as stated, fails: a book without an expected count is not repaired. The store holds
  the single book Tobit, the provider would answer every request, and the run requests
  nothing and prints that the book is unknown.
\<close>

theorem unknown_document_counterexample:
  "map_of VERSE_COUNTS ''Tobit'' = None \<and>
   repair_translation tobit_net ''KJV'' tobit_conn =
     (Inr (), tobit_conn\<lparr>trace := [Print (UnknownBook ''Tobit''), Print (Summary ''KJV'' 0 0)]\<rparr>)"
proof -
  have n: "map_of VERSE_COUNTS ''Tobit'' = None" by code_simp
  have b: "map_of BOOK_NAMES ''Tobit'' = None" by code_simp
  have t: "map_of TRANSLATIONS ''KJV'' = Some ''en-kjv''" by code_simp
  have "repair_translation tobit_net ''KJV'' tobit_conn =
     (Inr (), tobit_conn\<lparr>trace := [Print (UnknownBook ''Tobit''), Print (Summary ''KJV'' 0 0)]\<rparr>)"
    by (simp add: repair_translation_def t repair_book_def b tobit_conn_def emit_def)
  with n show ?thesis by (rule conjI)
qed

text \<open>
  C5, amended. The three tables have the same keys, so a book without an expected verse
  count has no provider name either: it is passed over with the line for an unknown book,
  nothing is requested or written and the totals stay as they were.
\<close>

theorem unknown_document_skipped:
  assumes "map_of VERSE_COUNTS name = None"
  shows "repair_book net code tid (bid, name) total_added total_missing c =
     (Inr (total_added, total_missing), emit (Print (UnknownBook name)) c)"
  using unknown_count_unmapped [OF assms] by (simp add: repair_book_unmapped)

theorem unknown_document_skipped_witness:
  "map_of VERSE_COUNTS ''Tobit'' = None \<and>
   repair_book tobit_net ''en-kjv'' ''KJV'' (99, ''Tobit'') 0 0 tobit_conn =
     (Inr (0, 0), emit (Print (UnknownBook ''Tobit'')) tobit_conn)"
proof -
  have h: "map_of VERSE_COUNTS ''Tobit'' = None" by code_simp
  show ?thesis
    using h unknown_document_skipped [OF h, of tobit_net "''en-kjv''" "''KJV''" 99 0 0 tobit_conn]
    by simp
qed

subsection \<open>Retrying an insert\<close>

text \<open>
  C7. The answers of the store that the retry loop around an \<open>INSERT\<close> sees are
  \<open>retry_outcomes 3\<close> of the answers to come: they are taken while they are lock
  errors, and at most three of them. The loop calls the store once per answer, with a delay
  of one second between two calls; every answer but the last is a lock error. On success
  the row is appended and reported as added, on an integrity error it is reported as not
  added, and an operational error as the last answer (one that is not a lock error, or the
  third lock error in a row) is returned as the error of the loop. Such an error ends the
  loop over the verses, for every entry that comes to the \<open>INSERT\<close>, and with it the
  loop over the chapters, the book, the loop over the books and \<open>repair_translation\<close>
  with the same error and in the same state.
\<close>

theorem insert_retry_bounded:
  "(let outs = retry_outcomes 3 (faults c)
    in insert_attempts [0..<3] row c =
         (case last outs of
            None \<Rightarrow> Inr True
          | Some IntegrityError \<Rightarrow> Inr False
          | Some (OperationalError msg) \<Rightarrow> Inl (OperationalError msg),
          c\<lparr>faults := drop (length outs) (faults c),
            verses := (if last outs = None then verses c @ [row] else verses c),
            trace := trace c @ insert_calls row outs\<rparr>) \<and>
       outs \<noteq> [] \<and> length outs \<le> 3 \<and> list_all is_lock (butlast outs) \<and>
       (is_lock (last outs) \<longrightarrow> length outs = 3) \<and>
       delays (insert_calls row outs) = replicate (length outs - 1) 1000) \<and>
   (verse_num_of v = Inr verse_num \<and> text_of v = Inr text \<and>
    py_not verse_num = False \<and> py_not text = False \<and> hashable verse_num \<and>
    (ch, key_of verse_num) \<notin> E \<and>
    bind_row tid bid ch verse_num text = Inr (Some row) \<and>
    insert_attempts [0..<3] row c = (Inl e, c') \<longrightarrow>
    repair_verses tid bid ch E (v # vs) book_added total_added c = (Inl (StoreError e), c')) \<and>
   (chapter_entries net code api ch = Inr entries \<and>
    repair_verses tid bid ch E entries book_added total_added
      (emit (Fetch code api ch) c) = (Inl err, c') \<longrightarrow>
    repair_chapters net code api tid bid E (ch # rest) book_added total_added c = (Inl err, c')) \<and>
   (enters_repair tid (bid, name) c \<and> map_of BOOK_NAMES name = Some api \<and>
    repair_chapters net code api tid bid (get_existing_verses c tid bid)
      [1..num_chapters_of name] 0 total_added (book_start tid (bid, name) c) = (Inl err, c') \<longrightarrow>
    repair_book net code tid (bid, name) total_added total_missing c = (Inl err, c')) \<and>
   (repair_book net code tid b total_added total_missing c = (Inl err, c') \<longrightarrow>
    repair_books net code tid (b # books_left) total_added total_missing c = (Inl err, c')) \<and>
   (map_of TRANSLATIONS tid = Some code \<and> code \<noteq> [] \<and>
    repair_books net code tid (sort_key fst (books c)) 0 0 c = (Inl err, c') \<longrightarrow>
    repair_translation net tid c = (Inl err, c'))"
proof -
  have ne: "retry_outcomes 3 (faults c) \<noteq> []"
    using retry_outcomes_nonempty [of 2 "faults c"] by (simp add: numeral_3_eq_3)
  have ex: "is_lock (last (retry_outcomes 3 (faults c))) \<longrightarrow> length (retry_outcomes 3 (faults c)) = 3"
    using retry_outcomes_exhausted [of 2 "faults c"] by (simp add: numeral_3_eq_3)
  have A: "(let outs = retry_outcomes 3 (faults c)
    in insert_attempts [0..<3] row c =
         (case last outs of
            None \<Rightarrow> Inr True
          | Some IntegrityError \<Rightarrow> Inr False
          | Some (OperationalError msg) \<Rightarrow> Inl (OperationalError msg),
          c\<lparr>faults := drop (length outs) (faults c),
            verses := (if last outs = None then verses c @ [row] else verses c),
            trace := trace c @ insert_calls row outs\<rparr>) \<and>
       outs \<noteq> [] \<and> length outs \<le> 3 \<and> list_all is_lock (butlast outs) \<and>
       (is_lock (last outs) \<longrightarrow> length outs = 3) \<and>
       delays (insert_calls row outs) = replicate (length outs - 1) 1000)"
    unfolding Let_def
    using ne ex retry_outcomes_length [of 3 "faults c"] retry_outcomes_locks [of 3 "faults c"]
    by (simp add: insert_attempts_spec insert_spec_def Let_def delays_insert_calls)
  have B: "verse_num_of v = Inr verse_num \<and> text_of v = Inr text \<and>
    py_not verse_num = False \<and> py_not text = False \<and> hashable verse_num \<and>
    (ch, key_of verse_num) \<notin> E \<and>
    bind_row tid bid ch verse_num text = Inr (Some row) \<and>
    insert_attempts [0..<3] row c = (Inl e, c') \<longrightarrow>
    repair_verses tid bid ch E (v # vs) book_added total_added c = (Inl (StoreError e), c')"
    by (intro impI, elim conjE) (rule verses_fatal)
  have C: "chapter_entries net code api ch = Inr entries \<and>
    repair_verses tid bid ch E entries book_added total_added
      (emit (Fetch code api ch) c) = (Inl err, c') \<longrightarrow>
    repair_chapters net code api tid bid E (ch # rest) book_added total_added c = (Inl err, c')"
    by (intro impI, elim conjE) (rule chapters_fatal)
  have D: "enters_repair tid (bid, name) c \<and> map_of BOOK_NAMES name = Some api \<and>
    repair_chapters net code api tid bid (get_existing_verses c tid bid)
      [1..num_chapters_of name] 0 total_added (book_start tid (bid, name) c) = (Inl err, c') \<longrightarrow>
    repair_book net code tid (bid, name) total_added total_missing c = (Inl err, c')"
    using book_fatal_chapters [of tid bid name c api net code total_added err c' total_missing]
    by blast
  have E: "repair_book net code tid b total_added total_missing c = (Inl err, c') \<longrightarrow>
    repair_books net code tid (b # books_left) total_added total_missing c = (Inl err, c')"
    using books_fatal [of net code tid b total_added total_missing c err c' books_left] by blast
  have F: "map_of TRANSLATIONS tid = Some code \<and> code \<noteq> [] \<and>
    repair_books net code tid (sort_key fst (books c)) 0 0 c = (Inl err, c') \<longrightarrow>
    repair_translation net tid c = (Inl err, c')"
    using translation_fatal [of tid code net c err c'] by blast
  show ?thesis
    by (rule conjI [OF A conjI [OF B conjI [OF C conjI [OF D conjI [OF E F]]]]])
qed

theorem insert_retry_bounded_witness:
  "insert_attempts [0..<3] first_row locked_conn =
     (Inl lock_error,
      locked_conn
        \<lparr>faults := [],
         trace := [Insert first_row (Some lock_error), Sleep 1000,
                   Insert first_row (Some lock_error), Sleep 1000,
                   Insert first_row (Some lock_error)]\<rparr>) \<and>
   fst (repair_verses ''KJV'' 31 1 {} [first_entry] 0 0 locked_conn) =
     Inl (StoreError lock_error) \<and>
   fst (repair_chapters example_net ''en-kjv'' ''obadiah'' ''KJV'' 31 {} [1] 0 0 locked_conn) =
     Inl (StoreError lock_error) \<and>
   fst (repair_book example_net ''en-kjv'' ''KJV'' (31, ''Obadiah'') 0 0 locked_conn) =
     Inl (StoreError lock_error) \<and>
   fst (repair_books example_net ''en-kjv'' ''KJV'' [(31, ''Obadiah'')] 0 0 locked_conn) =
     Inl (StoreError lock_error) \<and>
   fst (repair_translation example_net ''KJV'' locked_conn) = Inl (StoreError lock_error)"
proof -
  let ?row = "first_row"
  let ?entries = "[JObject [(''verse'', JInt 1), (''text'', JStr ''a'')],
              JObject [(''verse'', JInt 2), (''text'', JStr ''b'')],
              JObject [(''verse'', JInt 0), (''number'', JInt 3), (''text'', JStr ''c'')],
              JObject [(''number'', JInt 4)],
              JObject [(''verse'', JInt 2), (''text'', JStr ''b2'')],
              JObject [(''verse'', JNull), (''number'', JInt 5), (''text'', JStr ''e'')]]"
  have outs: "retry_outcomes 3 (faults locked_conn) =
      [Some lock_error, Some lock_error, Some lock_error]"
    by code_simp
  have A: "insert_attempts [0..<3] ?row locked_conn =
     (Inl lock_error,
      locked_conn
        \<lparr>faults := [],
         trace := [Insert ?row (Some lock_error), Sleep 1000,
                   Insert ?row (Some lock_error), Sleep 1000,
                   Insert ?row (Some lock_error)]\<rparr>)"
    using insert_retry_bounded [THEN conjunct1, of locked_conn ?row] unfolding Let_def outs
    by (simp add: locked_conn_def)
  have hB: "verse_num_of first_entry = Inr (JInt 1) \<and> text_of first_entry = Inr (JStr ''a'') \<and>
      py_not (JInt 1) = False \<and> py_not (JStr ''a'') = False \<and> hashable (JInt 1) \<and>
      (1, key_of (JInt 1)) \<notin> ({} :: (int \<times> json) set) \<and>
      bind_row ''KJV'' 31 1 (JInt 1) (JStr ''a'') = Inr (Some ?row) \<and>
      insert_attempts [0..<3] ?row locked_conn =
        (Inl lock_error, snd (insert_attempts [0..<3] ?row locked_conn))"
    using A by (simp add: verse_num_of_def text_of_def bind_row_def)
  have B: "repair_verses ''KJV'' 31 1 {} (first_entry # []) 0 0 locked_conn =
      (Inl (StoreError lock_error), snd (insert_attempts [0..<3] ?row locked_conn))"
    by (rule insert_retry_bounded [THEN conjunct2, THEN conjunct1, THEN mp, OF hB])
  have hC1: "chapter_entries example_net ''en-kjv'' ''obadiah'' 1 = Inr ?entries"
    by code_simp
  have hC2: "fst (repair_verses ''KJV'' 31 1 {} ?entries 0 0
      (emit (Fetch ''en-kjv'' ''obadiah'' 1) locked_conn)) = Inl (StoreError lock_error)"
    by code_simp
  have hC: "chapter_entries example_net ''en-kjv'' ''obadiah'' 1 = Inr ?entries \<and>
     repair_verses ''KJV'' 31 1 {} ?entries 0 0
      (emit (Fetch ''en-kjv'' ''obadiah'' 1) locked_conn) =
     (Inl (StoreError lock_error), snd (repair_verses ''KJV'' 31 1 {} ?entries 0 0
      (emit (Fetch ''en-kjv'' ''obadiah'' 1) locked_conn)))"
    using hC1 hC2 by (simp add: prod_eq_iff)
  have C: "repair_chapters example_net ''en-kjv'' ''obadiah'' ''KJV'' 31 {} (1 # []) 0 0 locked_conn =
     (Inl (StoreError lock_error), snd (repair_verses ''KJV'' 31 1 {} ?entries 0 0
      (emit (Fetch ''en-kjv'' ''obadiah'' 1) locked_conn)))"
    by (rule insert_retry_bounded [THEN conjunct2, THEN conjunct2, THEN conjunct1, THEN mp, OF hC])
  let ?chapters = "repair_chapters example_net ''en-kjv'' ''obadiah'' ''KJV'' 31
        (get_existing_verses locked_conn ''KJV'' 31) [1..num_chapters_of ''Obadiah''] 0 0
        (book_start ''KJV'' (31, ''Obadiah'') locked_conn)"
  have hD1: "enters_repair ''KJV'' (31, ''Obadiah'') locked_conn" by code_simp
  have hD2: "map_of BOOK_NAMES ''Obadiah'' = Some ''obadiah''" by code_simp
  have hD3: "fst ?chapters = Inl (StoreError lock_error)" by code_simp
  have hD: "enters_repair ''KJV'' (31, ''Obadiah'') locked_conn \<and>
      map_of BOOK_NAMES ''Obadiah'' = Some ''obadiah'' \<and>
      ?chapters = (Inl (StoreError lock_error), snd ?chapters)"
    using hD1 hD2 hD3 by (simp add: prod_eq_iff)
  have D: "repair_book example_net ''en-kjv'' ''KJV'' (31, ''Obadiah'') 0 0 locked_conn =
      (Inl (StoreError lock_error), snd ?chapters)"
    by (rule insert_retry_bounded [THEN conjunct2, THEN conjunct2, THEN conjunct2, THEN conjunct1,
          THEN mp, OF hD])
  have E: "repair_books example_net ''en-kjv'' ''KJV'' ((31, ''Obadiah'') # []) 0 0 locked_conn =
      (Inl (StoreError lock_error), snd ?chapters)"
    by (rule insert_retry_bounded [THEN conjunct2, THEN conjunct2, THEN conjunct2, THEN conjunct2,
          THEN conjunct1, THEN mp, OF D])
  have sorted: "sort_key fst (books locked_conn) = [(31, ''Obadiah'')]"
    by code_simp
  have hF: "map_of TRANSLATIONS ''KJV'' = Some ''en-kjv'' \<and> ''en-kjv'' \<noteq> [] \<and>
      repair_books example_net ''en-kjv'' ''KJV'' (sort_key fst (books locked_conn)) 0 0 locked_conn =
      (Inl (StoreError lock_error), snd ?chapters)"
    unfolding sorted using E by (simp add: TRANSLATIONS_def)
  have F: "repair_translation example_net ''KJV'' locked_conn =
      (Inl (StoreError lock_error), snd ?chapters)"
    by (rule insert_retry_bounded [THEN conjunct2, THEN conjunct2, THEN conjunct2, THEN conjunct2,
          THEN conjunct2, THEN mp, OF hF])
  show ?thesis
    using A arg_cong [OF B, of fst] arg_cong [OF C, of fst] arg_cong [OF D, of fst]
      arg_cong [OF E, of fst] arg_cong [OF F, of fst]
    by (simp only: fst_conv simp_thms)
qed

subsection \<open>The commit of a book\<close>

text \<open>
  C8, as stated, fails: the delay between two attempts to commit does not grow. On a store
  that is locked at the first two attempts the commit succeeds at the third, after two
  delays of two seconds each.
\<close>

theorem commit_delay_counterexample:
  "fst (commit_attempts [0..<5] locked_twice_conn) = Inr () \<and>
   delays (trace (snd (commit_attempts [0..<5] locked_twice_conn))) = [2000, 2000] \<and>
   \<not> sorted_wrt (<) (delays (trace (snd (commit_attempts [0..<5] locked_twice_conn))))"
  by code_simp

text \<open>
  C8, amended. The retry loop around \<open>commit\<close> sees \<open>retry_outcomes 5\<close> of the
  answers to come: it calls the store at most five times, every call but the last having
  met a lock error, with the same delay of two seconds between two calls; it fails with
  the last answer when that is an error (the fifth lock error, or any other error). A book
  that enters the repair and does not end in an error has exactly one successful commit,
  after its chapters; a book that is passed over has none. An error of the commit ends the
  book, the loop over the books and \<open>repair_translation\<close> with that error.
\<close>

theorem commit_retry_bounded:
  "(let outs = retry_outcomes 5 (faults c)
    in commit_attempts [0..<5] c =
         (case last outs of None \<Rightarrow> Inr () | Some e \<Rightarrow> Inl e,
          c\<lparr>faults := drop (length outs) (faults c),
            trace := trace c @ commit_calls outs\<rparr>) \<and>
       outs \<noteq> [] \<and> length outs \<le> 5 \<and> list_all is_lock (butlast outs) \<and>
       (is_lock (last outs) \<longrightarrow> length outs = 5) \<and>
       delays (commit_calls outs) = replicate (length outs - 1) 2000) \<and>
   (repair_book net code tid (bid, name) total_added total_missing c = (Inr r, c') \<longrightarrow>
    filter is_commit_ok (trace c') =
      filter is_commit_ok (trace c) @
      (if enters_repair tid (bid, name) c then [Commit None] else [])) \<and>
   (enters_repair tid (bid, name) c \<and> map_of BOOK_NAMES name = Some api \<and>
    repair_chapters net code api tid bid (get_existing_verses c tid bid)
      [1..num_chapters_of name] 0 total_added (book_start tid (bid, name) c) = (Inr p, c1) \<and>
    commit_attempts [0..<5] c1 = (Inl e, c2) \<longrightarrow>
    repair_book net code tid (bid, name) total_added total_missing c = (Inl (StoreError e), c2)) \<and>
   (repair_book net code tid b total_added total_missing c = (Inl err, c2) \<longrightarrow>
    repair_books net code tid (b # books_left) total_added total_missing c = (Inl err, c2)) \<and>
   (map_of TRANSLATIONS tid = Some code \<and> code \<noteq> [] \<and>
    repair_books net code tid (sort_key fst (books c)) 0 0 c = (Inl err, c2) \<longrightarrow>
    repair_translation net tid c = (Inl err, c2))"
proof -
  have five: "(5::nat) = Suc 4" by simp
  have ne: "retry_outcomes 5 (faults c) \<noteq> []"
    unfolding five by (rule retry_outcomes_nonempty)
  have ex: "is_lock (last (retry_outcomes 5 (faults c))) \<longrightarrow> length (retry_outcomes 5 (faults c)) = 5"
    using retry_outcomes_exhausted [of 4 "faults c"] by simp
  have A: "(let outs = retry_outcomes 5 (faults c)
    in commit_attempts [0..<5] c =
         (case last outs of None \<Rightarrow> Inr () | Some e \<Rightarrow> Inl e,
          c\<lparr>faults := drop (length outs) (faults c),
            trace := trace c @ commit_calls outs\<rparr>) \<and>
       outs \<noteq> [] \<and> length outs \<le> 5 \<and> list_all is_lock (butlast outs) \<and>
       (is_lock (last outs) \<longrightarrow> length outs = 5) \<and>
       delays (commit_calls outs) = replicate (length outs - 1) 2000)"
    unfolding Let_def
    using ne ex retry_outcomes_length [of 5 "faults c"] retry_outcomes_locks [of 5 "faults c"]
    by (simp add: commit_attempts_spec commit_spec_def Let_def delays_commit_calls)
  have B: "repair_book net code tid (bid, name) total_added total_missing c = (Inr r, c') \<longrightarrow>
    filter is_commit_ok (trace c') =
      filter is_commit_ok (trace c) @
      (if enters_repair tid (bid, name) c then [Commit None] else [])"
    using book_commits [of net code tid bid name total_added total_missing c r c'] by blast
  have C: "enters_repair tid (bid, name) c \<and> map_of BOOK_NAMES name = Some api \<and>
    repair_chapters net code api tid bid (get_existing_verses c tid bid)
      [1..num_chapters_of name] 0 total_added (book_start tid (bid, name) c) = (Inr p, c1) \<and>
    commit_attempts [0..<5] c1 = (Inl e, c2) \<longrightarrow>
    repair_book net code tid (bid, name) total_added total_missing c = (Inl (StoreError e), c2)"
    using book_fatal_commit [of tid bid name c api net code total_added p c1 e c2 total_missing]
    by blast
  have D: "repair_book net code tid b total_added total_missing c = (Inl err, c2) \<longrightarrow>
    repair_books net code tid (b # books_left) total_added total_missing c = (Inl err, c2)"
    using books_fatal [of net code tid b total_added total_missing c err c2 books_left] by blast
  have E: "map_of TRANSLATIONS tid = Some code \<and> code \<noteq> [] \<and>
    repair_books net code tid (sort_key fst (books c)) 0 0 c = (Inl err, c2) \<longrightarrow>
    repair_translation net tid c = (Inl err, c2)"
    using translation_fatal [of tid code net c err c2] by blast
  show ?thesis
    by (rule conjI [OF A conjI [OF B conjI [OF C conjI [OF D E]]]])
qed

theorem commit_retry_bounded_witness:
  "commit_attempts [0..<5] five_locks_conn =
     (Inl lock_error,
      five_locks_conn
        \<lparr>faults := [],
         trace := [Commit (Some lock_error), Print CommitRetry, Sleep 2000,
                   Commit (Some lock_error), Print CommitRetry, Sleep 2000,
                   Commit (Some lock_error), Print CommitRetry, Sleep 2000,
                   Commit (Some lock_error), Print CommitRetry, Sleep 2000,
                   Commit (Some lock_error)]\<rparr>) \<and>
   fst (repair_book example_net ''en-kjv'' ''KJV'' (57, ''Philemon'') 0 0 calm_conn) = Inr (0, 25) \<and>
   filter is_commit_ok
     (trace (snd (repair_book example_net ''en-kjv'' ''KJV'' (57, ''Philemon'') 0 0 calm_conn))) =
     [Commit None] \<and>
   fst (repair_book example_net ''en-kjv'' ''KJV'' (57, ''Philemon'') 0 0 five_locks_conn) =
     Inl (StoreError lock_error) \<and>
   fst (repair_books example_net ''en-kjv'' ''KJV'' [(57, ''Philemon'')] 0 0 five_locks_conn) =
     Inl (StoreError lock_error) \<and>
   fst (repair_translation example_net ''KJV'' five_locks_conn) = Inl (StoreError lock_error)"
proof -
  let ?b = "(57, ''Philemon'')"
  have outs: "retry_outcomes 5 (faults five_locks_conn) =
      [Some lock_error, Some lock_error, Some lock_error, Some lock_error, Some lock_error]"
    by code_simp
  have A: "commit_attempts [0..<5] five_locks_conn =
     (Inl lock_error,
      five_locks_conn
        \<lparr>faults := [],
         trace := [Commit (Some lock_error), Print CommitRetry, Sleep 2000,
                   Commit (Some lock_error), Print CommitRetry, Sleep 2000,
                   Commit (Some lock_error), Print CommitRetry, Sleep 2000,
                   Commit (Some lock_error), Print CommitRetry, Sleep 2000,
                   Commit (Some lock_error)]\<rparr>)"
    using commit_retry_bounded [THEN conjunct1, of five_locks_conn] unfolding Let_def outs
    by (simp add: five_locks_conn_def)
  have hB0: "fst (repair_book example_net ''en-kjv'' ''KJV'' ?b 0 0 calm_conn) = Inr (0, 25)"
    by code_simp
  have hB: "repair_book example_net ''en-kjv'' ''KJV'' ?b 0 0 calm_conn =
      (Inr (0, 25), snd (repair_book example_net ''en-kjv'' ''KJV'' ?b 0 0 calm_conn))"
    using hB0 by (simp add: prod_eq_iff)
  have en: "enters_repair ''KJV'' ?b calm_conn" by code_simp
  have B: "filter is_commit_ok
       (trace (snd (repair_book example_net ''en-kjv'' ''KJV'' ?b 0 0 calm_conn))) =
     filter is_commit_ok (trace calm_conn) @
       (if enters_repair ''KJV'' ?b calm_conn then [Commit None] else [])"
    by (rule commit_retry_bounded [THEN conjunct2, THEN conjunct1, THEN mp, OF hB])
  have B': "filter is_commit_ok
       (trace (snd (repair_book example_net ''en-kjv'' ''KJV'' ?b 0 0 calm_conn))) = [Commit None]"
    unfolding B using en by (simp add: calm_conn_def)
  let ?chapters = "repair_chapters example_net ''en-kjv'' ''philemon'' ''KJV'' 57
        (get_existing_verses five_locks_conn ''KJV'' 57) [1..num_chapters_of ''Philemon''] 0 0
        (book_start ''KJV'' ?b five_locks_conn)"
  have hC1: "enters_repair ''KJV'' ?b five_locks_conn" by code_simp
  have hC2: "map_of BOOK_NAMES ''Philemon'' = Some ''philemon''" by code_simp
  have hC3: "fst ?chapters = Inr (0, 0)" by code_simp
  have hC4: "fst (commit_attempts [0..<5] (snd ?chapters)) = Inl lock_error" by code_simp
  have hC: "enters_repair ''KJV'' ?b five_locks_conn \<and>
      map_of BOOK_NAMES ''Philemon'' = Some ''philemon'' \<and>
      ?chapters = (Inr (0, 0), snd ?chapters) \<and>
      commit_attempts [0..<5] (snd ?chapters) =
      (Inl lock_error, snd (commit_attempts [0..<5] (snd ?chapters)))"
    using hC1 hC2 hC3 hC4 by (simp add: prod_eq_iff)
  have C: "repair_book example_net ''en-kjv'' ''KJV'' ?b 0 0 five_locks_conn =
      (Inl (StoreError lock_error), snd (commit_attempts [0..<5] (snd ?chapters)))"
    by (rule commit_retry_bounded [THEN conjunct2, THEN conjunct2, THEN conjunct1, THEN mp, OF hC])
  have D: "repair_books example_net ''en-kjv'' ''KJV'' (?b # []) 0 0 five_locks_conn =
      (Inl (StoreError lock_error), snd (commit_attempts [0..<5] (snd ?chapters)))"
    by (rule commit_retry_bounded [THEN conjunct2, THEN conjunct2, THEN conjunct2, THEN conjunct1,
          THEN mp, OF C])
  have sorted: "sort_key fst (books five_locks_conn) = [?b]"
    by code_simp
  have hE: "map_of TRANSLATIONS ''KJV'' = Some ''en-kjv'' \<and> ''en-kjv'' \<noteq> [] \<and>
      repair_books example_net ''en-kjv'' ''KJV'' (sort_key fst (books five_locks_conn)) 0 0
        five_locks_conn =
      (Inl (StoreError lock_error), snd (commit_attempts [0..<5] (snd ?chapters)))"
    unfolding sorted using D by (simp add: TRANSLATIONS_def)
  have E: "repair_translation example_net ''KJV'' five_locks_conn =
      (Inl (StoreError lock_error), snd (commit_attempts [0..<5] (snd ?chapters)))"
    by (rule commit_retry_bounded [THEN conjunct2, THEN conjunct2, THEN conjunct2, THEN conjunct2,
          THEN mp, OF hE])
  show ?thesis
    using A hB0 B' arg_cong [OF C, of fst] arg_cong [OF D, of fst] arg_cong [OF E, of fst]
    by (simp only: fst_conv simp_thms)
qed

subsection \<open>The threshold\<close>

text \<open>
  C4. For a book with an expected count: when the number of existing keys divided by the
  expected count is at least 0.95, the book is passed over with the line that reports it
  complete, and the state is otherwise unchanged, so nothing is requested. When the ratio
  is below 0.95, the chapters are requested one by one from chapter 1, in order: at least
  the first one, and all of them unless an error ends the book before.
\<close>

theorem threshold_decides_fetching:
  assumes "map_of VERSE_COUNTS name = Some expected"
  shows
  "(0.95 \<le> real (card (get_existing_verses c tid bid)) / real_of_int expected \<longrightarrow>
      repair_book net code tid (bid, name) total_added total_missing c =
        (Inr (total_added, total_missing),
         emit (Print (Complete name (card (get_existing_verses c tid bid)))) c)) \<and>
   (real (card (get_existing_verses c tid bid)) / real_of_int expected < 0.95 \<longrightarrow>
      (\<exists>api n k. map_of BOOK_NAMES name = Some api \<and> map_of CHAPTERS name = Some n \<and>
         0 < k \<and> k \<le> length [1..n] \<and>
         filter is_fetch (trace (snd (repair_book net code tid (bid, name) total_added total_missing c))) =
           filter is_fetch (trace c) @ map (Fetch code api) (take k [1..n]) \<and>
         ((\<exists>totals. fst (repair_book net code tid (bid, name) total_added total_missing c) = Inr totals)
            \<longrightarrow> k = length [1..n])))"
proof -
  obtain api n where api: "map_of BOOK_NAMES name = Some api" and ne: "api \<noteq> []"
    and n: "map_of CHAPTERS name = Some n" and n1: "1 \<le> n"
    using counted_book_known [OF assms] by blast
  define E where "E = get_existing_verses c tid bid"
  have pos: "0 < expected" using assms by (rule verse_counts_positive)
  have ratio: "complete_enough (card E) expected \<longleftrightarrow> 0.95 \<le> real (card E) / real_of_int expected"
    using pos by (rule complete_enough_ratio)
  have A: "repair_book net code tid (bid, name) total_added total_missing c =
        (Inr (total_added, total_missing), emit (Print (Complete name (card E))) c)"
    if "0.95 \<le> real (card E) / real_of_int expected"
    using that ratio repair_book_complete [OF api ne, of c tid bid net code total_added total_missing]
      assms
    by (simp add: E_def)
  have B: "\<exists>api n k. map_of BOOK_NAMES name = Some api \<and> map_of CHAPTERS name = Some n \<and>
         0 < k \<and> k \<le> length [1..n] \<and>
         filter is_fetch (trace (snd (repair_book net code tid (bid, name) total_added total_missing c))) =
           filter is_fetch (trace c) @ map (Fetch code api) (take k [1..n]) \<and>
         ((\<exists>totals. fst (repair_book net code tid (bid, name) total_added total_missing c) = Inr totals)
            \<longrightarrow> k = length [1..n])"
    if below: "real (card E) / real_of_int expected < 0.95"
  proof -
    have nc: "\<not> complete_enough (card E) expected" using below ratio by simp
    let ?c0 = "emit (Print (Progress name (card E) expected)) c"
    obtain r1 c1 where rc: "repair_chapters net code api tid bid E [1..n] 0 total_added ?c0 = (r1, c1)"
      by (cases "repair_chapters net code api tid bid E [1..n] 0 total_added ?c0")
    obtain r2 c2 where cm: "commit_attempts [0..<5] c1 = (r2, c2)"
      by (cases "commit_attempts [0..<5] c1")
    have unfold: "repair_book net code tid (bid, name) total_added total_missing c =
          (case r1 of Inl e \<Rightarrow> (Inl e, c1)
           | Inr p \<Rightarrow> (case r2 of Inl e \<Rightarrow> (Inl (StoreError e), c2)
               | Inr u \<Rightarrow> (Inr (snd p, total_missing + max 0 (expected - int (card E) - fst p)),
                    if fst p > 0 then emit (Print (Added (fst p))) c2 else c2)))"
      using nc rc assms n
      by (intro repair_book_repair [OF api ne E_def _ _ _ _ cm]) simp_all
    obtain k where k: "k \<le> length [1..n]"
      and t: "filter is_fetch (trace c1) =
                filter is_fetch (trace ?c0) @ map (Fetch code api) (take k [1..n])"
      and k0: "[1..n] \<noteq> [] \<longrightarrow> 0 < k"
      and full: "(\<exists>p. r1 = Inr p) \<longrightarrow> k = length [1..n]"
      using repair_chapters_fetches [OF rc] by blast
    have "[1..n] \<noteq> []" using n1 by (simp add: upto.simps)
    with k0 have kpos: "0 < k" by simp
    have f2: "filter is_fetch (trace c2) = filter is_fetch (trace c1)"
      using commit_attempts_filter [of is_fetch c1] cm by simp
    have tr: "filter is_fetch (trace (snd (repair_book net code tid (bid, name) total_added total_missing c))) =
           filter is_fetch (trace c) @ map (Fetch code api) (take k [1..n])"
      unfolding unfold using t f2 by (cases r1; cases r2) simp_all
    have fl: "(\<exists>totals. fst (repair_book net code tid (bid, name) total_added total_missing c) = Inr totals)
            \<longrightarrow> k = length [1..n]"
      unfolding unfold using full by (cases r1) simp_all
    show ?thesis using api n kpos k tr fl by blast
  qed
  show ?thesis using A B unfolding E_def by blast
qed

theorem threshold_decides_fetching_witness:
  "map_of VERSE_COUNTS ''Obadiah'' = Some 21 \<and>
   card (get_existing_verses (obadiah_conn 20) ''KJV'' 31) = 20 \<and>
   repair_book example_net ''en-kjv'' ''KJV'' (31, ''Obadiah'') 0 0 (obadiah_conn 20) =
     (Inr (0, 0), emit (Print (Complete ''Obadiah'' 20)) (obadiah_conn 20)) \<and>
   card (get_existing_verses (obadiah_conn 19) ''KJV'' 31) = 19 \<and>
   filter is_fetch
     (trace (snd (repair_book example_net ''en-kjv'' ''KJV'' (31, ''Obadiah'') 0 0 (obadiah_conn 19)))) =
     [Fetch ''en-kjv'' ''obadiah'' 1]"
proof -
  have h: "map_of VERSE_COUNTS ''Obadiah'' = Some 21" by code_simp
  have c20: "card (get_existing_verses (obadiah_conn 20) ''KJV'' 31) = 20" by code_simp
  have c19: "card (get_existing_verses (obadiah_conn 19) ''KJV'' 31) = 19" by code_simp
  note T20 = threshold_decides_fetching [OF h, of "obadiah_conn 20" "''KJV''" 31 example_net
      "''en-kjv''" 0 0]
  have A: "repair_book example_net ''en-kjv'' ''KJV'' (31, ''Obadiah'') 0 0 (obadiah_conn 20) =
     (Inr (0, 0), emit (Print (Complete ''Obadiah'' 20)) (obadiah_conn 20))"
    using T20 [THEN conjunct1] unfolding c20 by simp
  note T19 = threshold_decides_fetching [OF h, of "obadiah_conn 19" "''KJV''" 31 example_net
      "''en-kjv''" 0 0]
  have "real 19 / real_of_int 21 < 0.95" by simp
  then obtain api n k where api: "map_of BOOK_NAMES ''Obadiah'' = Some api"
    and n: "map_of CHAPTERS ''Obadiah'' = Some n" and k0: "0 < k" and k1: "k \<le> length [1..n]"
    and t: "filter is_fetch
       (trace (snd (repair_book example_net ''en-kjv'' ''KJV'' (31, ''Obadiah'') 0 0 (obadiah_conn 19)))) =
       filter is_fetch (trace (obadiah_conn 19)) @ map (Fetch ''en-kjv'' api) (take k [1..n])"
    using T19 [THEN conjunct2] unfolding c19 by blast
  have "map_of BOOK_NAMES ''Obadiah'' = Some ''obadiah''" by code_simp
  with api have api': "api = ''obadiah''" by simp
  have "map_of CHAPTERS ''Obadiah'' = Some 1" by code_simp
  with n have n': "n = 1" by simp
  have k': "k = 1" using k0 k1 unfolding n' by simp
  have B: "filter is_fetch
     (trace (snd (repair_book example_net ''en-kjv'' ''KJV'' (31, ''Obadiah'') 0 0 (obadiah_conn 19)))) =
     [Fetch ''en-kjv'' ''obadiah'' 1]"
    unfolding t api' n' k' by (simp add: obadiah_conn_def)
  from h c20 A c19 B show ?thesis by (intro conjI)
qed

subsection \<open>A chapter that cannot be downloaded\<close>

text \<open>
  C6. When the provider fails for a chapter, \<open>download_chapter\<close> returns \<open>None\<close>
  and raises nothing, and the loop over the chapters goes on with the next chapter after
  the usual delay, with the store and both counters as they were. No run of
  \<open>repair_translation\<close> requests a single verse. When the provider fails for all
  chapters of a book that enters the repair, every chapter is requested in turn and none
  adds a verse; once the commit that follows has succeeded, the loop over the books goes on
  with the next book, with the count of verses added as it was, the estimate of verses
  missing raised by what the book lacks, and the state the commit left. In general, when
  the loop over the chapters of a book has come to its end, whatever requests failed on
  the way, and the commit has succeeded, the loop over the books goes on with the next
  book, with the counts the chapters left. When the provider fails for every request, the run leaves the table of verses as it was and returns
  without error on a store without contention; and whenever it returns without error it
  has requested every chapter of every book that entered the repair, book after book in
  the order of the ids.
\<close>

theorem failed_fetch_isolated:
  "(net code api ch = Failed f \<longrightarrow>
      download_chapter net code api ch c = (None, emit (Fetch code api ch) c) \<and>
      repair_chapters net code api tid bid E (ch # rest) book_added total_added c =
        repair_chapters net code api tid bid E rest book_added total_added
          (sleep 100 (emit (Fetch code api ch) c))) \<and>
   filter is_verse_fetch (trace (snd (repair_translation net tid c))) =
     filter is_verse_fetch (trace c) \<and>
   (enters_repair tid (bid, name) c \<and> map_of BOOK_NAMES name = Some api \<and>
    list_all (\<lambda>ch. \<exists>f. net code api ch = Failed f) [1..num_chapters_of name] \<and>
    commit_attempts [0..<5]
      (failed_pass code api [1..num_chapters_of name] (book_start tid (bid, name) c)) =
      (Inr (), c2) \<longrightarrow>
      repair_chapters net code api tid bid (get_existing_verses c tid bid)
        [1..num_chapters_of name] 0 total_added (book_start tid (bid, name) c) =
        (Inr (0, total_added),
         failed_pass code api [1..num_chapters_of name] (book_start tid (bid, name) c)) \<and>
      repair_books net code tid ((bid, name) # books_left) total_added total_missing c =
        repair_books net code tid books_left total_added
          (total_missing +
             max 0 (expected_total_of name - int (card (get_existing_verses c tid bid))))
          c2) \<and>
   (enters_repair tid (bid, name) c \<and> map_of BOOK_NAMES name = Some api \<and>
    repair_chapters net code api tid bid (get_existing_verses c tid bid)
      [1..num_chapters_of name] 0 total_added (book_start tid (bid, name) c) =
      (Inr (added, total_added'), c1) \<and>
    commit_attempts [0..<5] c1 = (Inr (), c3) \<longrightarrow>
      repair_books net code tid ((bid, name) # books_left) total_added total_missing c =
        repair_books net code tid books_left total_added'
          (total_missing +
             max 0 (expected_total_of name - int (card (get_existing_verses c tid bid)) - added))
          (if added > 0 then emit (Print (Added added)) c3 else c3)) \<and>
   ((\<forall>code api ch. \<exists>f. net code api ch = Failed f) \<longrightarrow>
      verses (snd (repair_translation net tid c)) = verses c \<and>
      (faults c = [] \<longrightarrow> fst (repair_translation net tid c) = Inr ()) \<and>
      (map_of TRANSLATIONS tid = Some code \<and> code \<noteq> [] \<and>
       fst (repair_translation net tid c) = Inr () \<longrightarrow>
         filter is_fetch (trace (snd (repair_translation net tid c))) =
           filter is_fetch (trace c) @ chapter_requests code tid (sort_key fst (books c)) c))"
proof -
  have A: "net code api ch = Failed f \<longrightarrow>
      download_chapter net code api ch c = (None, emit (Fetch code api ch) c) \<and>
      repair_chapters net code api tid bid E (ch # rest) book_added total_added c =
        repair_chapters net code api tid bid E rest book_added total_added
          (sleep 100 (emit (Fetch code api ch) c))"
  proof
    assume f: "net code api ch = Failed f"
    have ce: "chapter_entries net code api ch = Inr []"
      using f by (rule failed_entries [where net = net and code = code and api = api and ch = ch])
    show "download_chapter net code api ch c = (None, emit (Fetch code api ch) c) \<and>
      repair_chapters net code api tid bid E (ch # rest) book_added total_added c =
        repair_chapters net code api tid bid E rest book_added total_added
          (sleep 100 (emit (Fetch code api ch) c))"
      using f by (simp add: download_chapter_def Let_def repair_chapters_step ce)
  qed
  have B: "enters_repair tid (bid, name) c \<and> map_of BOOK_NAMES name = Some api \<and>
    list_all (\<lambda>ch. \<exists>f. net code api ch = Failed f) [1..num_chapters_of name] \<and>
    commit_attempts [0..<5]
      (failed_pass code api [1..num_chapters_of name] (book_start tid (bid, name) c)) =
      (Inr (), c2) \<longrightarrow>
      repair_chapters net code api tid bid (get_existing_verses c tid bid)
        [1..num_chapters_of name] 0 total_added (book_start tid (bid, name) c) =
        (Inr (0, total_added),
         failed_pass code api [1..num_chapters_of name] (book_start tid (bid, name) c)) \<and>
      repair_books net code tid ((bid, name) # books_left) total_added total_missing c =
        repair_books net code tid books_left total_added
          (total_missing +
             max 0 (expected_total_of name - int (card (get_existing_verses c tid bid))))
          c2"
  proof (intro impI, elim conjE)
    assume en: "enters_repair tid (bid, name) c" and api: "map_of BOOK_NAMES name = Some api"
      and fl: "list_all (\<lambda>ch. \<exists>f. net code api ch = Failed f) [1..num_chapters_of name]"
      and cm: "commit_attempts [0..<5]
          (failed_pass code api [1..num_chapters_of name] (book_start tid (bid, name) c)) =
          (Inr (), c2)"
    have rc: "repair_chapters net code api tid bid (get_existing_verses c tid bid)
        [1..num_chapters_of name] 0 total_added (book_start tid (bid, name) c) =
        (Inr (0, total_added),
         failed_pass code api [1..num_chapters_of name] (book_start tid (bid, name) c))"
      using fl by (rule failed_chapters)
    have rb: "repair_book net code tid (bid, name) total_added total_missing c =
        (Inr (total_added,
              total_missing +
                max 0 (expected_total_of name - int (card (get_existing_verses c tid bid)))),
         c2)"
      using failed_book [where net = net and code = code and api = api and tid = tid
          and bid = bid and name = name and c = c and ?r2.0 = "Inr ()" and ?c2.0 = c2
          and ta = total_added and tm = total_missing, OF en api fl cm]
      by simp
    have "repair_books net code tid ((bid, name) # books_left) total_added total_missing c =
        repair_books net code tid books_left total_added
          (total_missing +
             max 0 (expected_total_of name - int (card (get_existing_verses c tid bid))))
          c2"
      by (simp add: rb)
    with rc show "repair_chapters net code api tid bid (get_existing_verses c tid bid)
        [1..num_chapters_of name] 0 total_added (book_start tid (bid, name) c) =
        (Inr (0, total_added),
         failed_pass code api [1..num_chapters_of name] (book_start tid (bid, name) c)) \<and>
      repair_books net code tid ((bid, name) # books_left) total_added total_missing c =
        repair_books net code tid books_left total_added
          (total_missing +
             max 0 (expected_total_of name - int (card (get_existing_verses c tid bid))))
          c2"
      by (rule conjI)
  qed
  have G: "enters_repair tid (bid, name) c \<and> map_of BOOK_NAMES name = Some api \<and>
    repair_chapters net code api tid bid (get_existing_verses c tid bid)
      [1..num_chapters_of name] 0 total_added (book_start tid (bid, name) c) =
      (Inr (added, total_added'), c1) \<and>
    commit_attempts [0..<5] c1 = (Inr (), c3) \<longrightarrow>
      repair_books net code tid ((bid, name) # books_left) total_added total_missing c =
        repair_books net code tid books_left total_added'
          (total_missing +
             max 0 (expected_total_of name - int (card (get_existing_verses c tid bid)) - added))
          (if added > 0 then emit (Print (Added added)) c3 else c3)"
  proof (intro impI, elim conjE)
    assume en: "enters_repair tid (bid, name) c" and api: "map_of BOOK_NAMES name = Some api"
      and rc: "repair_chapters net code api tid bid (get_existing_verses c tid bid)
          [1..num_chapters_of name] 0 total_added (book_start tid (bid, name) c) =
          (Inr (added, total_added'), c1)"
      and cm: "commit_attempts [0..<5] c1 = (Inr (), c3)"
    have ne: "api \<noteq> []"
      and nc: "\<not> complete_enough (card (get_existing_verses c tid bid)) (expected_total_of name)"
      using en api by (simp_all add: enters_repair_def)
    have rb: "repair_book net code tid (bid, name) total_added total_missing c =
        (Inr (total_added',
              total_missing +
                max 0 (expected_total_of name - int (card (get_existing_verses c tid bid)) - added)),
         if added > 0 then emit (Print (Added added)) c3 else c3)"
      using repair_book_repair [OF api ne refl refl refl nc _ cm,
          where net = net and code = code and ta = total_added
            and ?r1.0 = "Inr (added, total_added')" and tm = total_missing] rc
      by simp
    show "repair_books net code tid ((bid, name) # books_left) total_added total_missing c =
        repair_books net code tid books_left total_added'
          (total_missing +
             max 0 (expected_total_of name - int (card (get_existing_verses c tid bid)) - added))
          (if added > 0 then emit (Print (Added added)) c3 else c3)"
      by (simp add: rb)
  qed
  have C: "(\<forall>code api ch. \<exists>f. net code api ch = Failed f) \<longrightarrow>
      verses (snd (repair_translation net tid c)) = verses c \<and>
      (faults c = [] \<longrightarrow> fst (repair_translation net tid c) = Inr ()) \<and>
      (map_of TRANSLATIONS tid = Some code \<and> code \<noteq> [] \<and>
       fst (repair_translation net tid c) = Inr () \<longrightarrow>
         filter is_fetch (trace (snd (repair_translation net tid c))) =
           filter is_fetch (trace c) @ chapter_requests code tid (sort_key fst (books c)) c)"
  proof
    assume all: "\<forall>code api ch. \<exists>f. net code api ch = Failed f"
    note R = all_failed_run [OF all, where tid = tid and c = c]
    have C1: "verses (snd (repair_translation net tid c)) = verses c" by (rule R(1))
    have C2: "faults c = [] \<longrightarrow> fst (repair_translation net tid c) = Inr ()"
      using R(2) by (rule impI)
    have C3: "map_of TRANSLATIONS tid = Some code \<and> code \<noteq> [] \<and>
       fst (repair_translation net tid c) = Inr () \<longrightarrow>
         filter is_fetch (trace (snd (repair_translation net tid c))) =
           filter is_fetch (trace c) @ chapter_requests code tid (sort_key fst (books c)) c"
      using R(3) [of code] by (intro impI, elim conjE)
    show "verses (snd (repair_translation net tid c)) = verses c \<and>
      (faults c = [] \<longrightarrow> fst (repair_translation net tid c) = Inr ()) \<and>
      (map_of TRANSLATIONS tid = Some code \<and> code \<noteq> [] \<and>
       fst (repair_translation net tid c) = Inr () \<longrightarrow>
         filter is_fetch (trace (snd (repair_translation net tid c))) =
           filter is_fetch (trace c) @ chapter_requests code tid (sort_key fst (books c)) c)"
      by (rule conjI [OF C1 conjI [OF C2 C3]])
  qed
  show ?thesis by (rule conjI [OF A conjI [OF no_verse_fetch conjI [OF B conjI [OF G C]]]])
qed

theorem failed_fetch_isolated_witness:
  "example_net ''en-kjv'' ''philemon'' 1 = Failed Timeout \<and>
   download_chapter example_net ''en-kjv'' ''philemon'' 1 calm_conn =
     (None, emit (Fetch ''en-kjv'' ''philemon'' 1) calm_conn) \<and>
   repair_chapters example_net ''en-kjv'' ''philemon'' ''KJV'' 57 {} [1] 0 0 calm_conn =
     (Inr (0, 0), sleep 100 (emit (Fetch ''en-kjv'' ''philemon'' 1) calm_conn)) \<and>
   filter is_verse_fetch (trace (snd (repair_translation example_net ''KJV'' example_conn))) = [] \<and>
   fst (repair_books example_net ''en-kjv'' ''KJV'' [(57, ''Philemon''), (31, ''Obadiah'')] 0 0
          calm_conn) = Inr (3, 43) \<and>
   filter is_fetch
     (trace (snd (repair_books example_net ''en-kjv'' ''KJV''
                    [(57, ''Philemon''), (31, ''Obadiah'')] 0 0 calm_conn))) =
     [Fetch ''en-kjv'' ''philemon'' 1, Fetch ''en-kjv'' ''obadiah'' 1] \<and>
   fst (repair_books example_net ''en-kjv'' ''KJV'' [(31, ''Obadiah''), (57, ''Philemon'')] 0 0
          empty_obadiah_conn) = Inr (3, 43) \<and>
   verses (snd (repair_translation dead_net ''KJV'' two_books_conn)) = [] \<and>
   fst (repair_translation dead_net ''KJV'' two_books_conn) = Inr () \<and>
   filter is_fetch (trace (snd (repair_translation dead_net ''KJV'' two_books_conn))) =
     [Fetch ''en-kjv'' ''obadiah'' 1, Fetch ''en-kjv'' ''philemon'' 1]"
proof -
  have h: "example_net ''en-kjv'' ''philemon'' 1 = Failed Timeout"
    by (simp add: example_net_def)
  note T1 = failed_fetch_isolated [where net = example_net and code = "''en-kjv''"
      and api = "''philemon''" and ch = 1 and f = Timeout and c = calm_conn and tid = "''KJV''"
      and bid = 57 and E = "{}" and rest = "[]" and book_added = 0 and total_added = 0]
  note A = T1 [THEN conjunct1, THEN mp, OF h]
  have A1: "download_chapter example_net ''en-kjv'' ''philemon'' 1 calm_conn =
     (None, emit (Fetch ''en-kjv'' ''philemon'' 1) calm_conn)"
    using A by (rule conjunct1)
  have A2: "repair_chapters example_net ''en-kjv'' ''philemon'' ''KJV'' 57 {} [1] 0 0 calm_conn =
     (Inr (0, 0), sleep 100 (emit (Fetch ''en-kjv'' ''philemon'' 1) calm_conn))"
    using A [THEN conjunct2] by simp
  note T2 = failed_fetch_isolated [where net = example_net and tid = "''KJV''" and c = example_conn]
  have B: "filter is_verse_fetch (trace (snd (repair_translation example_net ''KJV'' example_conn))) = []"
    using T2 [THEN conjunct2, THEN conjunct1] by (simp add: example_conn_def)
  let ?c1 = "failed_pass ''en-kjv'' ''philemon'' [1..num_chapters_of ''Philemon'']
               (book_start ''KJV'' (57, ''Philemon'') calm_conn)"
  let ?c2 = "snd (commit_attempts [0..<5] ?c1)"
  have n: "[1..num_chapters_of ''Philemon''] = [1]" by code_simp
  have h1: "enters_repair ''KJV'' (57, ''Philemon'') calm_conn" by code_simp
  have h2: "map_of BOOK_NAMES ''Philemon'' = Some ''philemon''" by code_simp
  have h3: "list_all (\<lambda>ch. \<exists>f. example_net ''en-kjv'' ''philemon'' ch = Failed f)
              [1..num_chapters_of ''Philemon'']"
    unfolding n by (simp add: example_net_def)
  have h4: "fst (commit_attempts [0..<5] ?c1) = Inr ()" by code_simp
  have hC: "enters_repair ''KJV'' (57, ''Philemon'') calm_conn \<and>
      map_of BOOK_NAMES ''Philemon'' = Some ''philemon'' \<and>
      list_all (\<lambda>ch. \<exists>f. example_net ''en-kjv'' ''philemon'' ch = Failed f)
        [1..num_chapters_of ''Philemon''] \<and>
      commit_attempts [0..<5] ?c1 = (Inr (), ?c2)"
    using h1 h2 h3 h4 by (simp add: prod_eq_iff)
  note T3 = failed_fetch_isolated [where net = example_net and code = "''en-kjv''"
      and api = "''philemon''" and c = calm_conn and tid = "''KJV''" and bid = 57
      and name = "''Philemon''" and ?c2.0 = ?c2 and total_added = 0 and total_missing = 0
      and books_left = "[(31, ''Obadiah'')]"]
  note C = T3 [THEN conjunct2, THEN conjunct2, THEN conjunct1, THEN mp, OF hC, THEN conjunct2]
  have r1: "fst (repair_books example_net ''en-kjv'' ''KJV'' [(31, ''Obadiah'')] 0
          (0 + max 0 (expected_total_of ''Philemon''
                       - int (card (get_existing_verses calm_conn ''KJV'' 57)))) ?c2) = Inr (3, 43)"
    by code_simp
  have r2: "filter is_fetch (trace (snd (repair_books example_net ''en-kjv'' ''KJV'' [(31, ''Obadiah'')] 0
          (0 + max 0 (expected_total_of ''Philemon''
                       - int (card (get_existing_verses calm_conn ''KJV'' 57)))) ?c2))) =
     [Fetch ''en-kjv'' ''philemon'' 1, Fetch ''en-kjv'' ''obadiah'' 1]"
    by code_simp
  have C1: "fst (repair_books example_net ''en-kjv'' ''KJV'' [(57, ''Philemon''), (31, ''Obadiah'')] 0 0
          calm_conn) = Inr (3, 43)"
    unfolding C by (rule r1)
  have C2: "filter is_fetch
     (trace (snd (repair_books example_net ''en-kjv'' ''KJV''
                    [(57, ''Philemon''), (31, ''Obadiah'')] 0 0 calm_conn))) =
     [Fetch ''en-kjv'' ''philemon'' 1, Fetch ''en-kjv'' ''obadiah'' 1]"
    unfolding C by (rule r2)
  let ?o1 = "snd (repair_chapters example_net ''en-kjv'' ''obadiah'' ''KJV'' 31
                    (get_existing_verses empty_obadiah_conn ''KJV'' 31)
                    [1..num_chapters_of ''Obadiah''] 0 0
                    (book_start ''KJV'' (31, ''Obadiah'') empty_obadiah_conn))"
  let ?o3 = "snd (commit_attempts [0..<5] ?o1)"
  have g1: "enters_repair ''KJV'' (31, ''Obadiah'') empty_obadiah_conn" by code_simp
  have g2: "map_of BOOK_NAMES ''Obadiah'' = Some ''obadiah''" by code_simp
  have g3: "fst (repair_chapters example_net ''en-kjv'' ''obadiah'' ''KJV'' 31
                    (get_existing_verses empty_obadiah_conn ''KJV'' 31)
                    [1..num_chapters_of ''Obadiah''] 0 0
                    (book_start ''KJV'' (31, ''Obadiah'') empty_obadiah_conn)) = Inr (3, 3)"
    by code_simp
  have g4: "fst (commit_attempts [0..<5] ?o1) = Inr ()" by code_simp
  have hG: "enters_repair ''KJV'' (31, ''Obadiah'') empty_obadiah_conn \<and>
      map_of BOOK_NAMES ''Obadiah'' = Some ''obadiah'' \<and>
      repair_chapters example_net ''en-kjv'' ''obadiah'' ''KJV'' 31
                    (get_existing_verses empty_obadiah_conn ''KJV'' 31)
                    [1..num_chapters_of ''Obadiah''] 0 0
                    (book_start ''KJV'' (31, ''Obadiah'') empty_obadiah_conn) = (Inr (3, 3), ?o1) \<and>
      commit_attempts [0..<5] ?o1 = (Inr (), ?o3)"
    using g1 g2 g3 g4 by (simp add: prod_eq_iff)
  note T5 = failed_fetch_isolated [where net = example_net and code = "''en-kjv''"
      and api = "''obadiah''" and c = empty_obadiah_conn and tid = "''KJV''" and bid = 31
      and name = "''Obadiah''" and added = 3 and total_added' = 3 and ?c1.0 = ?o1 and ?c3.0 = ?o3
      and total_added = 0 and total_missing = 0 and books_left = "[(57, ''Philemon'')]"]
  note G = T5 [THEN conjunct2, THEN conjunct2, THEN conjunct2, THEN conjunct1, THEN mp, OF hG]
  have r3: "fst (repair_books example_net ''en-kjv'' ''KJV'' [(57, ''Philemon'')] 3
          (0 + max 0 (expected_total_of ''Obadiah''
                       - int (card (get_existing_verses empty_obadiah_conn ''KJV'' 31)) - 3))
          (if (3::int) > 0 then emit (Print (Added 3)) ?o3 else ?o3)) = Inr (3, 43)"
    by code_simp
  have G1: "fst (repair_books example_net ''en-kjv'' ''KJV'' [(31, ''Obadiah''), (57, ''Philemon'')] 0 0
          empty_obadiah_conn) = Inr (3, 43)"
    unfolding G by (rule r3)
  have d: "\<forall>code api ch. \<exists>f. dead_net code api ch = Failed f"
    by (simp add: dead_net_def)
  note T4 = failed_fetch_isolated [where net = dead_net and tid = "''KJV''" and c = two_books_conn
      and code = "''en-kjv''"]
  note D = T4 [THEN conjunct2, THEN conjunct2, THEN conjunct2, THEN conjunct2, THEN mp, OF d]
  have D1: "verses (snd (repair_translation dead_net ''KJV'' two_books_conn)) = []"
    using D [THEN conjunct1] by (simp add: two_books_conn_def)
  have calm: "faults two_books_conn = []" by (simp add: two_books_conn_def)
  have D2: "fst (repair_translation dead_net ''KJV'' two_books_conn) = Inr ()"
    using D [THEN conjunct2, THEN conjunct1, THEN mp, OF calm] .
  have t: "map_of TRANSLATIONS ''KJV'' = Some ''en-kjv''" by code_simp
  have hD: "map_of TRANSLATIONS ''KJV'' = Some ''en-kjv'' \<and> ''en-kjv'' \<noteq> [] \<and>
      fst (repair_translation dead_net ''KJV'' two_books_conn) = Inr ()"
    using t D2 by simp
  have rq: "chapter_requests ''en-kjv'' ''KJV'' (sort_key fst (books two_books_conn)) two_books_conn =
      [Fetch ''en-kjv'' ''obadiah'' 1, Fetch ''en-kjv'' ''philemon'' 1]"
    by code_simp
  have D3: "filter is_fetch (trace (snd (repair_translation dead_net ''KJV'' two_books_conn))) =
     [Fetch ''en-kjv'' ''obadiah'' 1, Fetch ''en-kjv'' ''philemon'' 1]"
    using D [THEN conjunct2, THEN conjunct2, THEN mp, OF hD] unfolding rq
    by (simp add: two_books_conn_def)
  show ?thesis
    by (rule conjI [OF h conjI [OF A1 conjI [OF A2 conjI [OF B conjI [OF C1 conjI [OF C2
          conjI [OF G1 conjI [OF D1 conjI [OF D2 D3]]]]]]]]])
qed

subsection \<open>The estimate of what is still missing\<close>

text \<open>
  C9. When \<open>repair_translation\<close> returns without error for a known translation, the
  line it prints last reports, as verses still missing, the sum over the repaired books of
  \<open>max 0 (expected - existing - added)\<close>, and as verses added the sum of the rows
  appended; the estimate is never negative.
\<close>

theorem still_missing_estimate:
  "map_of TRANSLATIONS tid = Some code \<and> code \<noteq> [] \<and>
   fst (repair_translation net tid c) = Inr () \<longrightarrow>
   (let stats = document_stats net code tid (sort_key fst (books c)) 0 0 c;
        missing = (\<Sum>(expected, existing, added) \<leftarrow> stats. max 0 (expected - existing - added))
    in last (trace (snd (repair_translation net tid c))) =
         Print (Summary tid (\<Sum>(expected, existing, added) \<leftarrow> stats. added) missing) \<and>
       0 \<le> missing)"
proof (intro impI, elim conjE)
  assume code: "map_of TRANSLATIONS tid = Some code" and ne: "code \<noteq> []"
    and ok: "fst (repair_translation net tid c) = Inr ()"
  let ?bs = "sort_key fst (books c)"
  obtain r c1 where rb: "repair_books net code tid ?bs 0 0 c = (r, c1)"
    by (cases "repair_books net code tid ?bs 0 0 c")
  have run: "repair_translation net tid c =
     (case r of Inl e \<Rightarrow> (Inl e, c1)
      | Inr p \<Rightarrow> (Inr (), emit (Print (Summary tid (fst p) (snd p))) c1))"
    using code ne rb by (rule repair_translation_known)
  obtain p where r: "r = Inr p" using ok run by (cases r) simp_all
  obtain ta tm where p: "p = (ta, tm)" by (cases p)
  note bt = books_totals [OF rb [unfolded r p]]
  have "last (trace (snd (repair_translation net tid c))) = Print (Summary tid ta tm)"
    unfolding run r p by simp
  then show "let stats = document_stats net code tid ?bs 0 0 c;
        missing = (\<Sum>(expected, existing, added) \<leftarrow> stats. max 0 (expected - existing - added))
    in last (trace (snd (repair_translation net tid c))) =
         Print (Summary tid (\<Sum>(expected, existing, added) \<leftarrow> stats. added) missing) \<and>
       0 \<le> missing"
    unfolding Let_def using bt missing_nonneg [of "document_stats net code tid ?bs 0 0 c"]
    by simp
qed

theorem still_missing_estimate_witness:
  "map_of TRANSLATIONS ''KJV'' = Some ''en-kjv'' \<and>
   fst (repair_translation example_net ''KJV'' example_conn) = Inr () \<and>
   document_stats example_net ''en-kjv'' ''KJV'' (sort_key fst (books example_conn)) 0 0 example_conn =
     [(21, 0, 3), (25, 0, 0)] \<and>
   last (trace (snd (repair_translation example_net ''KJV'' example_conn))) =
     Print (Summary ''KJV'' 3 43)"
proof -
  have h1: "map_of TRANSLATIONS ''KJV'' = Some ''en-kjv''" by code_simp
  have h2: "fst (repair_translation example_net ''KJV'' example_conn) = Inr ()" by code_simp
  have st: "document_stats example_net ''en-kjv'' ''KJV'' (sort_key fst (books example_conn)) 0 0
      example_conn = [(21, 0, 3), (25, 0, 0)]"
    by code_simp
  have h: "map_of TRANSLATIONS ''KJV'' = Some ''en-kjv'' \<and> ''en-kjv'' \<noteq> [] \<and>
      fst (repair_translation example_net ''KJV'' example_conn) = Inr ()"
    using h1 h2 by simp
  note T = still_missing_estimate [where tid = "''KJV''" and code = "''en-kjv''"
      and net = example_net and c = example_conn, THEN mp, OF h]
  have "last (trace (snd (repair_translation example_net ''KJV'' example_conn))) =
     Print (Summary ''KJV'' 3 43)"
    using T unfolding Let_def st by simp
  with h1 h2 st show ?thesis by (intro conjI)
qed

end
